theory Spec2Isabelle
  imports Main
begin

section \<open>Geometry\<close>

text \<open>
  Modelled from the spec: the classes \<^verbatim>\<open>Axis\<close>, \<^verbatim>\<open>Point\<close>, \<^verbatim>\<open>Size\<close>, \<^verbatim>\<open>Rect\<close> and
  \<^verbatim>\<open>Insets\<close> of the module \<^verbatim>\<open>pyui.geom\<close>, which \<^verbatim>\<open>pyui/views/base.py\<close> imports and
  which is not among the source files. They are given with the members that \<^verbatim>\<open>base.py\<close>
  uses: a point has \<^verbatim>\<open>x\<close> and \<^verbatim>\<open>y\<close>, a size \<^verbatim>\<open>w\<close> and \<^verbatim>\<open>h\<close>, a rect an \<^verbatim>\<open>origin\<close>
  and a \<^verbatim>\<open>size\<close> (\<open>rsize\<close> here), insets one number for each side. Coordinates are
  Python integers.
\<close>

datatype axis = HORIZONTAL | VERTICAL

datatype point = Point (point_x: int) (point_y: int)

datatype size2 = Size (size_w: int) (size_h: int)

datatype rect = Rect (origin: point) (rsize: size2)

datatype insets = Insets (ins_top: int) (ins_left: int) (ins_bottom: int) (ins_right: int)

text \<open>Modelled from the spec: \<^verbatim>\<open>Rect.left\<close>, \<^verbatim>\<open>Rect.top\<close>, \<^verbatim>\<open>Rect.width\<close> and
  \<^verbatim>\<open>Rect.height\<close> of the absent \<^verbatim>\<open>pyui.geom\<close>; a frame is "origin + size".\<close>

definition rect_left :: "rect \<Rightarrow> int" where
  "rect_left r = point_x (origin r)"

definition rect_top :: "rect \<Rightarrow> int" where
  "rect_top r = point_y (origin r)"

definition rect_width :: "rect \<Rightarrow> int" where
  "rect_width r = size_w (rsize r)"

definition rect_height :: "rect \<Rightarrow> int" where
  "rect_height r = size_h (rsize r)"

text \<open>Modelled from the spec: \<^verbatim>\<open>Rect.__contains__\<close> of the absent \<^verbatim>\<open>pyui.geom\<close>, the
  test "point \<open>\<in>\<close> frame" of hit testing.\<close>

definition contains :: "rect \<Rightarrow> point \<Rightarrow> bool" where
  "contains r pt \<longleftrightarrow>
     rect_left r \<le> point_x pt \<and> point_x pt \<le> rect_left r + rect_width r \<and>
     rect_top r \<le> point_y pt \<and> point_y pt \<le> rect_top r + rect_height r"

text \<open>Modelled from the spec: \<^verbatim>\<open>Insets.width\<close>, \<^verbatim>\<open>Insets.height\<close> and
  \<^verbatim>\<open>Insets.__getitem__\<close> of the absent \<^verbatim>\<open>pyui.geom\<close>; padding and border are
  "per-axis insets".\<close>

definition ins_width :: "insets \<Rightarrow> int" where
  "ins_width i = ins_left i + ins_right i"

definition ins_height :: "insets \<Rightarrow> int" where
  "ins_height i = ins_top i + ins_bottom i"

definition ins_axis :: "insets \<Rightarrow> axis \<Rightarrow> int" where
  "ins_axis i a = (case a of HORIZONTAL \<Rightarrow> ins_width i | VERTICAL \<Rightarrow> ins_height i)"

text \<open>Modelled from the spec: \<^verbatim>\<open>Rect.__sub__\<close> of the absent \<^verbatim>\<open>pyui.geom\<close>, the
  "frame \<open>-\<close> padding \<open>-\<close> border" of the layout passes: the insets are taken off each
  side of the rect.\<close>

definition rect_sub :: "rect \<Rightarrow> insets \<Rightarrow> rect" where
  "rect_sub r i =
     Rect (Point (rect_left r + ins_left i) (rect_top r + ins_top i))
          (Size (rect_width r - ins_width i) (rect_height r - ins_height i))"

section \<open>Environment\<close>

text \<open>
  Modelled from the spec: the class \<^verbatim>\<open>Environment\<close> of the module \<^verbatim>\<open>pyui.env\<close>, which is
  not among the source files either. An environment is a set of named fields ("scale
  factor, font, color, ..."); a field an environment sets itself is an override, the
  others are inherited.
\<close>

record environment =
  overrides :: "string \<Rightarrow> int option"
  inherited :: "string \<Rightarrow> int option"

text \<open>Modelled from the spec: reading a field of the absent \<^verbatim>\<open>Environment\<close>; "reads
  always see the nearest ancestor override".\<close>

definition env_read :: "environment \<Rightarrow> string \<Rightarrow> int option" where
  "env_read e k = (case overrides e k of Some v \<Rightarrow> Some v | None \<Rightarrow> inherited e k)"

text \<open>Modelled from the spec: \<^verbatim>\<open>Environment.inherit\<close> of the absent \<^verbatim>\<open>pyui.env\<close>;
  "each child's Environment starts as a copy of the parent's, then has the child's own
  explicit overrides applied". The call mutates the receiver; the value returned here
  is the receiver after the call.\<close>

definition inherit :: "environment \<Rightarrow> environment \<Rightarrow> environment" where
  "inherit self penv = self\<lparr>inherited := env_read penv\<rparr>"

section \<open>View objects\<close>

text \<open>
  Attribute values that filters compare with \<^verbatim>\<open>==\<close>. Python's \<^verbatim>\<open>bool\<close> is a subclass
  of \<^verbatim>\<open>int\<close> and \<^verbatim>\<open>True == 1\<close>, so booleans are the integers 0 and 1; \<open>ARef\<close> is a
  reference to an object, \<open>None\<close> (of the option type) is Python's \<^verbatim>\<open>None\<close>.
\<close>

datatype aval = AInt int | AStr string | ARef nat

text \<open>
  The fields of one \<^verbatim>\<open>View\<close> object other than \<^verbatim>\<open>contents\<close> and \<^verbatim>\<open>subviews\<close>.
  \<^item> \<open>cls\<close> is \<^verbatim>\<open>__class__.__name__\<close>, \<open>oid\<close> the identity of the object;
  \<^item> \<open>parent\<close> holds the identity of the parent object, or \<open>None\<close>;
  \<^item> \<open>env\<close> is the instance attribute \<^verbatim>\<open>env\<close> when the object has one of its own, an
    \<^verbatim>\<open>Environment\<close> that no other view holds;
    \<open>None\<close> means the lookup \<^verbatim>\<open>self.env\<close> falls through to the class attribute
    \<^verbatim>\<open>View.env\<close> (line 34), one object shared by every such view;
  \<^item> \<open>options\<close> are the further attributes set from \<^verbatim>\<open>**options\<close>;
  \<^item> \<open>content_size_m\<close> and \<open>minimum_size_m\<close> are the methods a subclass overrides
    (as \<^verbatim>\<open>Slider\<close> and \<^verbatim>\<open>TextField\<close> do); \<open>None\<close> selects the method of \<^verbatim>\<open>View\<close>.
\<close>

record vstate =
  cls :: string
  oid :: nat
  parent :: "nat option"
  index :: int
  priority :: int
  interactive :: bool
  dirty :: bool
  disabled :: bool
  env :: "environment option"
  frame :: rect
  padding :: insets
  border :: insets
  options :: "string \<Rightarrow> aval option"
  content_size_m :: "(size2 \<Rightarrow> size2) option"
  minimum_size_m :: "size2 option"

text \<open>
  A view with its live children (\<open>subviews\<close>, the list that line 102 installs) and its
  declared children (\<open>contents\<close>, set by the constructor and by \<^verbatim>\<open>__call__\<close>). The tree
  is held by value, as the specification has it: a view owns its subviews, and
  \<open>contents\<close> is a sequence of descriptors that reconciliation turns into live views.
  An entry of \<open>contents\<close> that is a view stands for that object in the state in which
  \<^verbatim>\<open>rebuild\<close> finds it; the state \<^verbatim>\<open>rebuild\<close> leaves it in is that of the produced child.
  An object is named by its identity \<open>oid\<close>. An object that stood in two places would
  be two values here, where the program has one object that the later of two
  assignments wins; the theorems on reconciliation that depend on it take trees that
  hold every object once.
  The name \<open>find_view\<close> stands for \<^verbatim>\<open>find\<close>, and every view runs the methods of
  \<^verbatim>\<open>View\<close> itself except \<^verbatim>\<open>content_size\<close> and \<^verbatim>\<open>minimum_size\<close>.

  A declared child is any Python value:
  \<^item> \<open>PView v\<close>: an instance of \<^verbatim>\<open>View\<close> that iterates to itself (\<^verbatim>\<open>View.__iter__\<close>);
  \<^item> \<open>PForEach f rs\<close>: an instance \<open>f\<close> of \<^verbatim>\<open>ForEach\<close>, where \<open>rs\<close> are the values
    \<^verbatim>\<open>self.builder(item)\<close> for the items in order;
  \<^item> \<open>PSeq n xs\<close>: any other iterable, of class \<open>n\<close>, with elements \<open>xs\<close>;
  \<^item> \<open>PAtom n\<close>: a value of class \<open>n\<close> that is not iterable.
\<close>

datatype view = View (vs: vstate) (contents: "pyval list") (subviews: "view list")
and pyval = PView view | PForEach view "pyval list" | PSeq string "pyval list" | PAtom string

type_synonym filters = "(string \<times> aval option) list"

text \<open>\<^verbatim>\<open>str\<close> of an integer, for the property \<^verbatim>\<open>View.id\<close> (lines 49-51), which is
  \<^verbatim>\<open>"{}-{}".format(self.__class__.__name__, self.index)\<close>.\<close>

function show_nat :: "nat \<Rightarrow> string" where
  "show_nat n =
     (if n < 10 then [char_of (48 + n)] else show_nat (n div 10) @ [char_of (48 + n mod 10)])"
  by pat_completeness auto

termination
  by (relation "measure (\<lambda>n. n)") auto

definition show_int :: "int \<Rightarrow> string" where
  "show_int i = (if i < 0 then CHR ''-'' # show_nat (nat (- i)) else show_nat (nat i))"

definition view_id :: "view \<Rightarrow> string" where
  "view_id v = cls (vs v) @ ''-'' @ show_int (index (vs v))"

text \<open>
  \<^verbatim>\<open>getattr(self, attr, None)\<close>. \<open>Val x\<close> is an answer that a filter value can equal.
  \<open>Obj\<close> is an answer that no filter value of this model equals: a \<^verbatim>\<open>Rect\<close>, an
  \<^verbatim>\<open>Insets\<close>, an \<^verbatim>\<open>Environment\<close>, a tuple or a list, next to a number, a string, a
  view or \<^verbatim>\<open>None\<close>. The property \<^verbatim>\<open>root\<close> answers with the receiver when it has no
  parent, and with a view from above it otherwise; that view is not held here, and
  \<open>Obj\<close> is then exact for every filter value but that view itself. Any other
  name is looked up in \<open>options\<close>, which then stands for what the object answers
  (\<^verbatim>\<open>background_color\<close>, \<^verbatim>\<open>item_view\<close>, \<^verbatim>\<open>window\<close> and the names set from
  \<^verbatim>\<open>**options\<close>).
\<close>

datatype attr = Val "aval option" | Obj

definition py_getattr :: "view \<Rightarrow> string \<Rightarrow> attr" where
  "py_getattr v a =
     (if a = ''index'' then Val (Some (AInt (index (vs v))))
      else if a = ''priority'' then Val (Some (AInt (priority (vs v))))
      else if a = ''interactive'' then Val (Some (AInt (of_bool (interactive (vs v)))))
      else if a = ''dirty'' then Val (Some (AInt (of_bool (dirty (vs v)))))
      else if a = ''disabled'' then Val (Some (AInt (of_bool (disabled (vs v)))))
      else if a = ''parent'' then Val (map_option ARef (parent (vs v)))
      else if a = ''id'' then Val (Some (AStr (view_id v)))
      else if a = ''root'' then
        (if parent (vs v) = None then Val (Some (ARef (oid (vs v)))) else Obj)
      else if a \<in> set [''frame'', ''padding'', ''border'', ''env'', ''contents'', ''subviews'',
                        ''id_path'']
        then Obj
      else Val (options (vs v) a))"

text \<open>\<^verbatim>\<open>all(getattr(self, attr, None) == value for attr, value in filters.items())\<close>\<close>

definition matches :: "filters \<Rightarrow> view \<Rightarrow> bool" where
  "matches fs v = list_all (\<lambda>(a, x). py_getattr v a = Val x) fs"

section \<open>Event routing: \<^verbatim>\<open>find\<close> and \<^verbatim>\<open>find_all\<close>\<close>

text \<open>
  \<^verbatim>\<open>View.find\<close> (lines 226-234). \<open>find_first\<close> is its loop over \<^verbatim>\<open>self.subviews\<close>,
  which returns at the first subview whose own \<^verbatim>\<open>find\<close> is not \<^verbatim>\<open>None\<close> (a view
  object is always true). The result is the view found.
\<close>

fun find_view :: "point \<Rightarrow> filters \<Rightarrow> view \<Rightarrow> view option"
and find_first :: "point \<Rightarrow> filters \<Rightarrow> view list \<Rightarrow> view option" where
  "find_view pt fs (View s cs svs) =
     (if contains (frame s) pt then
        (case find_first pt fs svs of
           Some found \<Rightarrow> Some found
         | None \<Rightarrow> if matches fs (View s cs svs) then Some (View s cs svs) else None)
      else None)"
| "find_first pt fs [] = None"
| "find_first pt fs (v # rest) =
     (case find_view pt fs v of
        Some found \<Rightarrow> Some found
      | None \<Rightarrow> find_first pt fs rest)"

text \<open>\<^verbatim>\<open>View.find_all\<close> (lines 236-242); \<open>find_all_each\<close> is its loop.\<close>

fun find_all :: "filters \<Rightarrow> view \<Rightarrow> view list"
and find_all_each :: "filters \<Rightarrow> view list \<Rightarrow> view list" where
  "find_all fs (View s cs svs) =
     (if matches fs (View s cs svs) then [View s cs svs] else []) @ find_all_each fs svs"
| "find_all_each fs [] = []"
| "find_all_each fs (v # rest) = find_all fs v @ find_all_each fs rest"

section \<open>Layout: \<^verbatim>\<open>minimum_size\<close>, \<^verbatim>\<open>resize\<close>, \<^verbatim>\<open>reposition\<close>\<close>

text \<open>
  \<^verbatim>\<open>View.minimum_size\<close> (lines 114-124). The call \<^verbatim>\<open>view.minimum_size()\<close> on a subview
  is dispatched on the subview's class, so an overriding method answers first.
  \<open>minimum_size_loop\<close> is the loop, with \<^verbatim>\<open>min_w\<close> and \<^verbatim>\<open>min_h\<close> as accumulators.
\<close>

fun minimum_size :: "view \<Rightarrow> size2"
and minimum_size_loop :: "view list \<Rightarrow> int \<Rightarrow> int \<Rightarrow> size2" where
  "minimum_size (View s cs svs) =
     (case minimum_size_m s of
        Some m \<Rightarrow> m
      | None \<Rightarrow> minimum_size_loop svs 0 0)"
| "minimum_size_loop [] min_w min_h = Size min_w min_h"
| "minimum_size_loop (v # rest) min_w min_h =
     (let m = minimum_size v in
      minimum_size_loop rest
        (max (size_w m) (min_w + ins_axis (padding (vs v)) HORIZONTAL + ins_axis (border (vs v)) HORIZONTAL))
        (max (size_h m) (min_h + ins_axis (padding (vs v)) VERTICAL + ins_axis (border (vs v)) VERTICAL)))"

text \<open>\<^verbatim>\<open>View.content_size\<close> (lines 126-131) returns \<^verbatim>\<open>Size()\<close>, the zero size; a subclass
  may override it.\<close>

definition content_size :: "view \<Rightarrow> size2 \<Rightarrow> size2" where
  "content_size v available =
     (case content_size_m (vs v) of
        Some f \<Rightarrow> f available
      | None \<Rightarrow> Size 0 0)"

text \<open>
  \<^verbatim>\<open>View.resize\<close> (lines 147-166). \<open>resize_loop\<close> is the loop over the subviews; it
  returns the resized subviews with the running \<^verbatim>\<open>max_w\<close> and \<^verbatim>\<open>max_h\<close>. The
  assignment \<^verbatim>\<open>self.frame.size = ...\<close> keeps the frame's origin.
\<close>

fun resize :: "size2 \<Rightarrow> view \<Rightarrow> view"
and resize_loop :: "size2 \<Rightarrow> view list \<Rightarrow> int \<Rightarrow> int \<Rightarrow> view list \<times> int \<times> int" where
  "resize available (View s cs svs) =
     (let inside = Size (max 0 (size_w available - ins_width (padding s) - ins_width (border s)))
                        (max 0 (size_h available - ins_height (padding s) - ins_height (border s)))
      in case resize_loop inside svs 0 0 of
        (svs', max_w, max_h) \<Rightarrow>
          (let sz = content_size (View s cs svs') inside;
               max_w' = max max_w (size_w sz);
               max_h' = max max_h (size_h sz)
           in View (s\<lparr>frame := Rect (origin (frame s))
                        (Size (max_w' + ins_width (padding s) + ins_width (border s))
                              (max_h' + ins_height (padding s) + ins_height (border s)))\<rparr>)
                cs svs'))"
| "resize_loop inside [] max_w max_h = ([], max_w, max_h)"
| "resize_loop inside (v # rest) max_w max_h =
     (let v' = resize inside v in
      case resize_loop inside rest (max max_w (rect_width (frame (vs v'))))
                                   (max max_h (rect_height (frame (vs v')))) of
        (rest', mw, mh) \<Rightarrow> (v' # rest', mw, mh))"

text \<open>
  \<^verbatim>\<open>View.reposition\<close> (lines 168-178). \<^verbatim>\<open>//\<close> is floor division, as \<open>div\<close> on \<open>int\<close>.
  The assignment \<^verbatim>\<open>self.frame.origin = ...\<close> keeps the frame's size.
\<close>

fun reposition :: "rect \<Rightarrow> view \<Rightarrow> view" where
  "reposition inside (View s cs svs) =
     (let s' = s\<lparr>frame := Rect
                  (Point (rect_left inside + (rect_width inside - rect_width (frame s)) div 2)
                         (rect_top inside + (rect_height inside - rect_height (frame s)) div 2))
                  (rsize (frame s))\<rparr>;
          inner = rect_sub (rect_sub inside (padding s)) (border s)
      in View s' cs (map (reposition inner) svs))"

section \<open>Reconciliation: \<^verbatim>\<open>content\<close> and \<^verbatim>\<open>rebuild\<close>\<close>

text \<open>
  The exceptions of reconciliation. \<open>ValueError n\<close> is the \<^verbatim>\<open>ValueError\<close> of line 95,
  whose message names the class \<open>n\<close> of the value that is not a \<^verbatim>\<open>View\<close>.
  \<open>TypeError n\<close> is what \<^verbatim>\<open>yield from\<close> raises on a value of class \<open>n\<close> that cannot
  be iterated.
\<close>

datatype error = ValueError string | TypeError string

text \<open>\<^verbatim>\<open>isinstance(view, View)\<close>, with the view when it holds (\<^verbatim>\<open>ForEach\<close> is a subclass
  of \<^verbatim>\<open>View\<close>), and \<^verbatim>\<open>view.__class__.__name__\<close>.\<close>

fun as_view :: "pyval \<Rightarrow> view option" where
  "as_view (PView v) = Some v"
| "as_view (PForEach f rs) = Some f"
| "as_view (PSeq n xs) = None"
| "as_view (PAtom n) = None"

fun class_name :: "pyval \<Rightarrow> string" where
  "class_name (PView v) = cls (vs v)"
| "class_name (PForEach f rs) = cls (vs f)"
| "class_name (PSeq n xs) = n"
| "class_name (PAtom n) = n"

text \<open>
  Iteration. \<open>iter_val x\<close> is \<^verbatim>\<open>yield from x\<close>: the values it yields, in order, and the
  exception that ends it, if one does. A view yields itself (\<^verbatim>\<open>View.__iter__\<close>, lines
  81-82); a \<^verbatim>\<open>ForEach\<close> yields from each value its builder returns
  (\<^verbatim>\<open>ForEach.__iter__\<close>, lines 280-282); another iterable yields its elements.
  \<open>iter_each\<close> is the loop \<^verbatim>\<open>for x in xs: yield from x\<close>, which both
  \<^verbatim>\<open>ForEach.__iter__\<close> and \<^verbatim>\<open>View.content\<close> (lines 104-106) are. The generators
  are lazy: the values before an exception have been yielded when it is raised.
\<close>

fun iter_val :: "pyval \<Rightarrow> pyval list \<times> error option"
and iter_each :: "pyval list \<Rightarrow> pyval list \<times> error option" where
  "iter_val (PView v) = ([PView v], None)"
| "iter_val (PForEach f rs) = iter_each rs"
| "iter_val (PSeq n xs) = (xs, None)"
| "iter_val (PAtom n) = ([], Some (TypeError n))"
| "iter_each [] = ([], None)"
| "iter_each (x # rest) =
     (case iter_val x of
        (ys, Some e) \<Rightarrow> (ys, Some e)
      | (ys, None) \<Rightarrow> (case iter_each rest of (zs, e) \<Rightarrow> (ys @ zs, e)))"

definition content :: "view \<Rightarrow> pyval list \<times> error option" where
  "content v = iter_each (contents v)"

text \<open>
  Lines 96-98 of \<^verbatim>\<open>rebuild\<close>, for the child \<open>c\<close> at position \<open>idx\<close> of the view with
  fields \<open>s\<close>. \<open>cenv\<close> is the class attribute \<^verbatim>\<open>View.env\<close>. Both \<^verbatim>\<open>view.env\<close> and
  \<^verbatim>\<open>self.env\<close> are attribute lookups: an object without an \<^verbatim>\<open>env\<close> of its own
  answers with \<^verbatim>\<open>View.env\<close>, and \<^verbatim>\<open>inherit\<close> then mutates that shared object.
\<close>

definition attach :: "vstate \<Rightarrow> environment \<Rightarrow> int \<Rightarrow> view \<Rightarrow> environment \<times> view" where
  "attach s cenv idx c =
     (let penv = (case env s of Some e \<Rightarrow> e | None \<Rightarrow> cenv) in
      case env (vs c) of
        Some e \<Rightarrow>
          (cenv, View ((vs c)\<lparr>parent := Some (oid s), index := idx, env := Some (inherit e penv)\<rparr>)
                      (contents c) (subviews c))
      | None \<Rightarrow>
          (inherit cenv penv, View ((vs c)\<lparr>parent := Some (oid s), index := idx\<rparr>)
                      (contents c) (subviews c)))"

lemma size_attach: "size (snd (attach s cenv idx c)) = size c"
  by (cases c) (simp add: attach_def Let_def split: option.splits)

lemma iter_size:
  "size_list size (fst (iter_val x)) \<le> Suc (size x)"
  "size_list size (fst (iter_each xs)) \<le> size_list size xs"
proof (induction x and xs rule: iter_val_iter_each.induct)
  case (6 x rest)
  obtain ys e where xv: "iter_val x = (ys, e)" by (cases "iter_val x")
  obtain zs e' where rv: "iter_each rest = (zs, e')" by (cases "iter_each rest")
  show ?case
  proof (cases e)
    case None
    with 6(1) 6(2)[of ys None] xv rv show ?thesis by simp
  next
    case (Some a)
    with 6(1) xv show ?thesis by simp
  qed
qed simp_all

lemma content_size_less: "size_list size (fst (content (View s cs svs))) < size (View s cs svs)"
  using iter_size(2)[of cs] by (simp add: content_def)

lemma as_view_size: "as_view x = Some c \<Longrightarrow> size c < size x"
  by (cases x) auto

text \<open>
  \<^verbatim>\<open>View.rebuild\<close> (lines 91-102). The state is the class attribute \<^verbatim>\<open>View.env\<close> and
  the receiver. The result is: the exception raised, if any; \<^verbatim>\<open>View.env\<close> after the
  call; the receiver after the call; and the local list \<^verbatim>\<open>new_subviews\<close> when the call
  ends, which holds the children the loop has reached, as the call left them (they are
  mutated in place, so this is the state a holder of a reference to them sees).
  \<open>rebuild_loop\<close> is the loop over \<^verbatim>\<open>enumerate(self.content())\<close>, with \<^verbatim>\<open>idx\<close> and
  \<^verbatim>\<open>new_subviews\<close> as accumulators. When the generator ends with an exception, the
  loop has run on the values yielded before it.
\<close>

function rebuild :: "environment \<Rightarrow> view \<Rightarrow> error option \<times> environment \<times> view \<times> view list"
and rebuild_loop :: "vstate \<Rightarrow> environment \<Rightarrow> int \<Rightarrow> view list \<Rightarrow> pyval list
                       \<Rightarrow> error option \<times> environment \<times> view list" where
  "rebuild cenv (View s cs svs) =
     (case content (View s cs svs) of
        (produced, stop) \<Rightarrow>
          (case rebuild_loop s cenv 0 [] produced of
             (Some e, cenv', new_subviews) \<Rightarrow> (Some e, cenv', View s cs svs, new_subviews)
           | (None, cenv', new_subviews) \<Rightarrow>
               (case stop of
                  Some e \<Rightarrow> (Some e, cenv', View s cs svs, new_subviews)
                | None \<Rightarrow> (None, cenv', View s cs new_subviews, new_subviews))))"
| "rebuild_loop s cenv idx new_subviews [] = (None, cenv, new_subviews)"
| "rebuild_loop s cenv idx new_subviews (x # rest) =
     (case as_view x of
        None \<Rightarrow> (Some (ValueError (class_name x)), cenv, new_subviews)
      | Some c \<Rightarrow>
          (case attach s cenv idx c of
             (cenv1, c1) \<Rightarrow>
               (case rebuild cenv1 c1 of
                  (Some e, cenv2, c2, _) \<Rightarrow> (Some e, cenv2, new_subviews @ [c2])
                | (None, cenv2, c2, _) \<Rightarrow>
                    rebuild_loop s cenv2 (idx + 1) (new_subviews @ [c2]) rest)))"
  by pat_completeness auto

termination
  apply (relation "measure (\<lambda>a. case a of Inl (cenv, v) \<Rightarrow> size v
                                 | Inr (s, cenv, idx, new, xs) \<Rightarrow> size_list size xs)")
  apply simp
  subgoal using content_size_less by (metis fst_conv in_measure old.sum.simps(5,6) case_prod_conv)
  subgoal for s cenv idx new x rest c a cenv1
    using as_view_size[of x c] size_attach[of s cenv idx c] by (simp add: case_prod_unfold)
  subgoal by simp
  done

section \<open>\<^verbatim>\<open>layout\<close> and \<^verbatim>\<open>state_changed\<close>\<close>

definition set_dirty :: "bool \<Rightarrow> view \<Rightarrow> view" where
  "set_dirty b v = View ((vs v)\<lparr>dirty := b\<rparr>) (contents v) (subviews v)"

text \<open>
  \<^verbatim>\<open>View.layout\<close> (lines 180-185). An exception of \<^verbatim>\<open>rebuild\<close> leaves the method
  before \<^verbatim>\<open>resize\<close>.
\<close>

definition layout :: "environment \<Rightarrow> rect \<Rightarrow> view \<Rightarrow> error option \<times> environment \<times> view" where
  "layout cenv rect v =
     (case (if subviews v = []
            then (case rebuild cenv v of (e, cenv', v', _) \<Rightarrow> (e, cenv', v'))
            else (None, cenv, v)) of
        (Some e, cenv', v') \<Rightarrow> (Some e, cenv', v')
      | (None, cenv', v') \<Rightarrow>
          (None, cenv', set_dirty False (reposition rect (resize (rsize rect) v'))))"

text \<open>
  A view of a tree is addressed by its path from the root: the positions taken in
  \<^verbatim>\<open>subviews\<close>, outermost first. \<open>get_at\<close> reads the view at a path, \<open>put_at\<close>
  replaces it.
\<close>

fun get_at :: "view \<Rightarrow> nat list \<Rightarrow> view option" where
  "get_at v [] = Some v"
| "get_at v (i # p) = (if i < length (subviews v) then get_at (subviews v ! i) p else None)"

fun put_at :: "view \<Rightarrow> nat list \<Rightarrow> view \<Rightarrow> view" where
  "put_at v [] n = n"
| "put_at v (i # p) n =
     (if i < length (subviews v)
      then View (vs v) (contents v) ((subviews v)[i := put_at (subviews v ! i) p n])
      else v)"

text \<open>
  \<^verbatim>\<open>View.root\<close> (lines 62-67), for the view at path \<open>p\<close> of the tree \<open>t\<close>: the path of
  the view the loop ends at. The loop follows the reference \<^verbatim>\<open>view.parent\<close> until a
  view has none. A reference is the identity of an object: it is followed one step up
  the path when the view there has that identity. A reference to any other object
  leads out of the tree, to views that are not held here, and the answer is \<open>None\<close>.
\<close>

function root_walk :: "view \<Rightarrow> nat list \<Rightarrow> nat list option" where
  "root_walk t p =
     (case get_at t p of
        None \<Rightarrow> None
      | Some view \<Rightarrow>
          (case parent (vs view) of
             None \<Rightarrow> Some p
           | Some up_id \<Rightarrow>
               if p = [] then None
               else (case get_at t (butlast p) of
                       None \<Rightarrow> None
                     | Some up \<Rightarrow> if oid (vs up) = up_id then root_walk t (butlast p) else None)))"
  by pat_completeness auto

termination
  by (relation "measure (\<lambda>(t, p). length p)") auto

text \<open>
  \<^verbatim>\<open>View.state_changed\<close> (lines 271-273), called on the view at path \<open>p\<close> of the tree
  \<open>t\<close>; the arguments \<^verbatim>\<open>name\<close> and \<^verbatim>\<open>value\<close> are not used. An exception of
  \<^verbatim>\<open>rebuild\<close> leaves the method before the assignment to \<^verbatim>\<open>dirty\<close>. The result is
  \<open>None\<close> when the path addresses no view, and when \<^verbatim>\<open>self.root\<close> is a view outside
  the tree: the assignment then changes an object that is not held here.
\<close>

definition state_changed ::
  "environment \<Rightarrow> view \<Rightarrow> nat list \<Rightarrow> string \<Rightarrow> aval option
     \<Rightarrow> (error option \<times> environment \<times> view) option" where
  "state_changed cenv t p name val =
     (case get_at t p of
        None \<Rightarrow> None
      | Some self \<Rightarrow>
          (case rebuild cenv self of
             (Some e, cenv', self', _) \<Rightarrow> Some (Some e, cenv', put_at t p self')
           | (None, cenv', self', _) \<Rightarrow>
               (let t' = put_at t p self' in
                case root_walk t' p of
                  None \<Rightarrow> None
                | Some r \<Rightarrow>
                    (case get_at t' r of
                       None \<Rightarrow> None
                     | Some root \<Rightarrow> Some (None, cenv', put_at t' r (set_dirty True root))))))"

text \<open>
  \<^verbatim>\<open>View.__init__\<close> (lines 36-47) called with no contents and no options, on an object
  of class \<open>c\<close> with identity \<open>i\<close>, with the class attributes of lines 24-34.
\<close>

definition init_state :: "string \<Rightarrow> nat \<Rightarrow> vstate" where
  "init_state c i =
     \<lparr>cls = c, oid = i, parent = None, index = 0, priority = 2, interactive = False,
      dirty = False, disabled = False, env = None,
      frame = Rect (Point 0 0) (Size 0 0),
      padding = Insets 0 0 0 0, border = Insets 0 0 0 0,
      options = (\<lambda>_. None), content_size_m = None, minimum_size_m = None\<rparr>"

section \<open>The words of the specification\<close>

text \<open>The pre-order listing of a tree: a view, then the listings of its subviews in
  order. This is the order the specification names for \<^verbatim>\<open>find_all\<close>.\<close>

fun preorder :: "view \<Rightarrow> view list" where
  "preorder (View s cs svs) = View s cs svs # concat (map preorder svs)"

text \<open>The update of the running minimum that the specification gives for one child, on
  both axes.\<close>

definition min_step :: "view \<Rightarrow> size2 \<Rightarrow> size2" where
  "min_step child running =
     Size (max (size_w (minimum_size child))
               (size_w running + ins_axis (padding (vs child)) HORIZONTAL
                               + ins_axis (border (vs child)) HORIZONTAL))
          (max (size_h (minimum_size child))
               (size_h running + ins_axis (padding (vs child)) VERTICAL
                               + ins_axis (border (vs child)) VERTICAL))"

lemma produced_size:
  "x \<in> set (fst (content (View s cs svs))) \<Longrightarrow> as_view x = Some c \<Longrightarrow> size c < size (View s cs svs)"
proof -
  assume x: "x \<in> set (fst (content (View s cs svs)))" and c: "as_view x = Some c"
  have "size x < Suc (size_list size (fst (content (View s cs svs))))"
    using x by (simp add: less_Suc_eq_le size_list_estimation')
  with content_size_less[of s cs svs] as_view_size[OF c] show ?thesis by simp
qed

text \<open>
  The exceptions that reconciling a view can meet, in the order \<^verbatim>\<open>rebuild\<close> would meet
  them: for every value its declared children expand to, the \<^verbatim>\<open>ValueError\<close> naming the
  value's class when the value is not a view, and the exceptions of the view itself when
  it is one; then the exception that ends the expansion, if one does.
\<close>

function faults :: "view \<Rightarrow> error list" where
  "faults (View s cs svs) =
     concat (map (\<lambda>x. case as_view x of
                          None \<Rightarrow> [ValueError (class_name x)]
                        | Some c \<Rightarrow> faults c)
                 (fst (content (View s cs svs))))
     @ (case snd (content (View s cs svs)) of None \<Rightarrow> [] | Some e \<Rightarrow> [e])"
  by pat_completeness auto

termination
  apply (relation "measure size")
  apply simp
  subgoal for s cs svs x c using produced_size[of x s cs svs c] by simp
  done

definition first_fault :: "error list \<Rightarrow> error option" where
  "first_fault es = (case es of [] \<Rightarrow> None | e # _ \<Rightarrow> Some e)"

text \<open>
  The words of the specification. \<open>offending v\<close> lists the classes of the values that
  "a declared child expands to" and that are not views, for the declared children of
  \<open>v\<close> and of every view they expand to, in the order of reconciliation. \<open>iterable v\<close>
  says that every declared child is, as the data model has it, "itself iterable": no
  expansion of \<open>v\<close> or of a view below it ends with an exception.
\<close>

function offending :: "view \<Rightarrow> string list" where
  "offending (View s cs svs) =
     concat (map (\<lambda>x. case as_view x of
                          None \<Rightarrow> [class_name x]
                        | Some c \<Rightarrow> offending c)
                 (fst (content (View s cs svs))))"
  by pat_completeness auto

termination
  apply (relation "measure size")
  apply simp
  subgoal for s cs svs x c using produced_size[of x s cs svs c] by simp
  done

function iterable :: "view \<Rightarrow> bool" where
  "iterable (View s cs svs) \<longleftrightarrow>
     snd (content (View s cs svs)) = None \<and>
     list_all (\<lambda>x. case as_view x of None \<Rightarrow> True | Some c \<Rightarrow> iterable c)
              (fst (content (View s cs svs)))"
  by pat_completeness auto

termination
  apply (relation "measure size")
  apply simp
  subgoal for s cs svs x c using produced_size[of x s cs svs c] by simp
  done

text \<open>
  The invariant of the data model for the view at path \<open>p\<close> of the tree \<open>t\<close>, "every
  non-root node's parent is consistent with its position": the root has no parent, and
  the parent of every view on the way from the root down to \<open>p\<close> is the view one step
  up (line 96 sets it so when that view is reconciled).
\<close>

definition linked :: "view \<Rightarrow> nat list \<Rightarrow> bool" where
  "linked t p \<longleftrightarrow>
     parent (vs t) = None \<and>
     list_all (\<lambda>k. case (get_at t (take k p), get_at t (take (Suc k) p)) of
                      (Some up, Some view) \<Rightarrow> parent (vs view) = Some (oid (vs up))
                    | _ \<Rightarrow> False) [0..<length p]"

text \<open>
  A tree holds every object once. \<open>produced_oids v\<close> lists the identities of the views
  that the declared children of \<open>v\<close>, and of the views below them, expand to;
  \<open>path_oids t p\<close> lists the identities of the views on the way from the root of \<open>t\<close>
  down to the view at \<open>p\<close>. Where such a list is distinct, no object stands in two
  places, and the tree held by value describes the objects of the program.
\<close>

function produced_oids :: "view \<Rightarrow> nat list" where
  "produced_oids (View s cs svs) =
     concat (map (\<lambda>x. case as_view x of
                          None \<Rightarrow> []
                        | Some c \<Rightarrow> oid (vs c) # produced_oids c)
                 (fst (content (View s cs svs))))"
  by pat_completeness auto
termination
  apply (relation "measure size")
  apply simp
  subgoal for s cs svs x c using produced_size[of x s cs svs c] by simp
  done

fun path_oids :: "view \<Rightarrow> nat list \<Rightarrow> nat list" where
  "path_oids v [] = [oid (vs v)]"
| "path_oids v (i # p) =
     oid (vs v) # (if i < length (subviews v) then path_oids (subviews v ! i) p else [])"

text \<open>
  The matches of hit testing in post-order ("pre-order exclusion, post-order match"): a
  view whose frame lacks the point contributes nothing, and neither does any view below
  it; otherwise the matches of its subviews come first, in declaration order, and then
  the view itself if it satisfies the filters.
\<close>

fun postorder_hits :: "point \<Rightarrow> filters \<Rightarrow> view \<Rightarrow> view list" where
  "postorder_hits pt fs (View s cs svs) =
     (if contains (frame s) pt
      then concat (map (postorder_hits pt fs) svs)
           @ (if matches fs (View s cs svs) then [View s cs svs] else [])
      else [])"

definition first_of :: "'a list \<Rightarrow> 'a option" where
  "first_of xs = (case xs of [] \<Rightarrow> None | x # _ \<Rightarrow> Some x)"

text \<open>The lookup \<^verbatim>\<open>self.env\<close> on a view with fields \<open>s\<close>, where \<open>cenv\<close> is the class
  attribute \<^verbatim>\<open>View.env\<close>.\<close>

definition self_env :: "vstate \<Rightarrow> environment \<Rightarrow> environment" where
  "self_env s cenv = (case env s of Some e \<Rightarrow> e | None \<Rightarrow> cenv)"

text \<open>Reading the field \<open>k\<close> of \<^verbatim>\<open>self.env\<close>, where \<open>cenv\<close> is the class attribute
  \<^verbatim>\<open>View.env\<close>.\<close>

definition read_env :: "environment \<Rightarrow> view \<Rightarrow> string \<Rightarrow> int option" where
  "read_env cenv v k = env_read (case env (vs v) of Some e \<Rightarrow> e | None \<Rightarrow> cenv) k"

section \<open>Example trees\<close>

text \<open>A freshly constructed view of class \<open>c\<close> that has been given the sibling position
  \<open>idx\<close> and the frame \<open>r\<close>.\<close>

definition framed :: "string \<Rightarrow> nat \<Rightarrow> int \<Rightarrow> rect \<Rightarrow> vstate" where
  "framed c i idx r = (init_state c i)\<lparr>index := idx, frame := r\<rparr>"

text \<open>Two overlapping siblings: \<open>hit_A\<close> is declared first, \<open>hit_B\<close> second, and
  \<open>hit_B\<close> reaches beyond the frame of their parent.\<close>

definition hit_A :: view where
  "hit_A = View (framed ''View'' 1 0 (Rect (Point 10 10) (Size 60 60))) [] []"

definition hit_B :: view where
  "hit_B = View (framed ''View'' 2 1 (Rect (Point 60 20) (Size 50 50))) [] []"

definition hit_root :: view where
  "hit_root = View (framed ''View'' 0 0 (Rect (Point 0 0) (Size 100 100)))
                   [PView hit_A, PView hit_B] [hit_A, hit_B]"

text \<open>A chain of three interactive views, each inside the one before.\<close>

definition chain_leaf :: view where
  "chain_leaf =
     View ((framed ''Button'' 3 0 (Rect (Point 20 20) (Size 10 10)))\<lparr>interactive := True\<rparr>) [] []"

definition chain_mid :: view where
  "chain_mid =
     View ((framed ''View'' 2 0 (Rect (Point 10 10) (Size 50 50)))\<lparr>interactive := True\<rparr>)
          [PView chain_leaf] [chain_leaf]"

definition chain_root :: view where
  "chain_root =
     View ((framed ''View'' 1 0 (Rect (Point 0 0) (Size 100 100)))\<lparr>interactive := True\<rparr>)
          [PView chain_mid] [chain_mid]"

text \<open>Two leaves that override \<^verbatim>\<open>minimum_size\<close>, with padding and border, under a plain
  view.\<close>

definition min_A :: view where
  "min_A = View ((init_state ''Slider'' 1)\<lparr>padding := Insets 1 2 3 4, minimum_size_m := Some (Size 50 20)\<rparr>) [] []"

definition min_B :: view where
  "min_B = View ((init_state ''TextField'' 2)\<lparr>padding := Insets 5 5 5 5, border := Insets 1 1 1 1,
              minimum_size_m := Some (Size 30 40)\<rparr>) [] []"

definition min_root :: view where
  "min_root = View (init_state ''View'' 0) [PView min_A, PView min_B] [min_A, min_B]"

text \<open>A leaf whose \<^verbatim>\<open>content_size\<close> is (50, 20) whatever it is offered, under a view
  with padding 10 on every side.\<close>

definition sized_leaf :: view where
  "sized_leaf = View ((init_state ''Leaf'' 1)\<lparr>content_size_m := Some (\<lambda>a. Size 50 20)\<rparr>) [] []"

definition sized_root :: view where
  "sized_root = View ((init_state ''View'' 0)\<lparr>padding := Insets 10 10 10 10\<rparr>)
                     [PView sized_leaf] [sized_leaf]"

text \<open>A view with a 5 by 5 frame that holds a view with a 2 by 2 frame; no padding, no
  border.\<close>

definition centre_leaf :: view where
  "centre_leaf = View ((init_state ''View'' 1)\<lparr>frame := Rect (Point 0 0) (Size 2 2)\<rparr>) [] []"

definition centre_root :: view where
  "centre_root = View ((init_state ''View'' 0)\<lparr>frame := Rect (Point 0 0) (Size 5 5)\<rparr>)
                      [PView centre_leaf] [centre_leaf]"

text \<open>
  Modelled from the spec: a fresh \<^verbatim>\<open>Environment()\<close> of the absent \<^verbatim>\<open>pyui.env\<close>, with no
  field set; \<^verbatim>\<open>View.env\<close> starts as one (line 34). A tree whose second declared child is
  a \<^verbatim>\<open>ForEach\<close> that builds a button and then the list \<^verbatim>\<open>[7]\<close>, and the same tree
  without the list. \<open>mutated_child\<close> and \<open>mutated_built\<close> are the first two produced
  children as a failed reconciliation of \<open>rb_bad\<close> leaves them.
\<close>

definition env0 :: environment where
  "env0 = \<lparr>overrides = (\<lambda>_. None), inherited = (\<lambda>_. None)\<rparr>"

definition rb_grand :: view where
  "rb_grand = View (init_state ''Text'' 3) [] []"

definition rb_child :: view where
  "rb_child = View (init_state ''View'' 1) [PView rb_grand] []"

definition rb_each :: view where
  "rb_each = View (init_state ''ForEach'' 2) [] []"

definition rb_built :: view where
  "rb_built = View (init_state ''Button'' 4) [] []"

definition rb_late :: view where
  "rb_late = View (init_state ''View'' 5) [] []"

definition rb_old :: view where
  "rb_old = View ((init_state ''View'' 6)\<lparr>parent := Some 0\<rparr>) [] []"

definition rb_bad :: view where
  "rb_bad = View (init_state ''View'' 0)
     [PView rb_child, PForEach rb_each [PView rb_built, PSeq ''list'' [PAtom ''int'']], PView rb_late]
     [rb_old]"

definition rb_good :: view where
  "rb_good = View (init_state ''View'' 0)
     [PView rb_child, PForEach rb_each [PView rb_built]]
     [rb_old]"

definition mutated_child :: view where
  "mutated_child = View ((init_state ''View'' 1)\<lparr>parent := Some 0, index := 0\<rparr>) [PView rb_grand]
                      [View ((init_state ''Text'' 3)\<lparr>parent := Some 1, index := 0\<rparr>) [] []]"

definition mutated_built :: view where
  "mutated_built = View ((init_state ''Button'' 4)\<lparr>parent := Some 0, index := 1\<rparr>) [] []"

text \<open>A tree of three views; the middle one has not been reconciled.\<close>

definition sc_leaf :: view where
  "sc_leaf = View ((init_state ''Text'' 2)\<lparr>parent := Some 1\<rparr>) [] []"

definition sc_mid :: view where
  "sc_mid = View ((init_state ''View'' 1)\<lparr>parent := Some 0\<rparr>) [PView sc_leaf] []"

definition sc_root :: view where
  "sc_root = View (init_state ''View'' 0) [PView sc_mid] [sc_mid]"

text \<open>A root with padding 10 on every side that declares one leaf, before its first
  layout. The leaf of \<open>scen_root_min\<close> overrides \<^verbatim>\<open>minimum_size\<close> to answer (50, 20);
  the leaf of \<open>scen_root\<close> overrides \<^verbatim>\<open>content_size\<close> to answer (50, 20).\<close>

definition scen_leaf_min :: view where
  "scen_leaf_min = View ((init_state ''Leaf'' 1)\<lparr>minimum_size_m := Some (Size 50 20)\<rparr>) [] []"

definition scen_root_min :: view where
  "scen_root_min = View ((init_state ''View'' 0)\<lparr>padding := Insets 10 10 10 10\<rparr>)
                     [PView scen_leaf_min] []"

definition scen_leaf :: view where
  "scen_leaf = View ((init_state ''Leaf'' 1)\<lparr>content_size_m := Some (\<lambda>a. Size 50 20)\<rparr>) [] []"

definition scen_root :: view where
  "scen_root = View ((init_state ''View'' 0)\<lparr>padding := Insets 10 10 10 10\<rparr>)
                     [PView scen_leaf] []"

text \<open>
  A root with two children \<open>A\<close> and \<open>B\<close>, where \<open>A\<close> has a child of its own. Only
  \<open>A\<close> was given an \<^verbatim>\<open>Environment\<close> of its own, with the overrides \<open>ov\<close>; the
  others were constructed without one.
\<close>

definition leak_G :: view where
  "leak_G = View (init_state ''Text'' 3) [] []"

definition leak_A :: "(string \<Rightarrow> int option) \<Rightarrow> view" where
  "leak_A ov = View ((init_state ''View'' 1)\<lparr>env := Some \<lparr>overrides = ov, inherited = (\<lambda>_. None)\<rparr>\<rparr>)
                    [PView leak_G] []"

definition leak_B :: view where
  "leak_B = View (init_state ''View'' 2) [] []"

definition leak_root :: "(string \<Rightarrow> int option) \<Rightarrow> view" where
  "leak_root ov = View (init_state ''View'' 0) [PView (leak_A ov), PView leak_B] []"

text \<open>A root with two overlapping children; the second has a child of its own, two
  levels below the root.\<close>

definition deep_A :: view where
  "deep_A = View (framed ''View'' 1 0 (Rect (Point 0 0) (Size 50 50))) [] []"
definition deep_C :: view where
  "deep_C = View (framed ''View'' 3 0 (Rect (Point 10 10) (Size 20 20))) [] []"
definition deep_B :: view where
  "deep_B = View (framed ''View'' 2 1 (Rect (Point 0 0) (Size 50 50))) [PView deep_C] [deep_C]"
definition deep_root :: view where
  "deep_root = View (framed ''View'' 0 0 (Rect (Point 0 0) (Size 100 100)))
                 [PView deep_A, PView deep_B] [deep_A, deep_B]"

text \<open>
  A root with an environment of its own that sets \<^verbatim>\<open>scale\<close>, whose first declared child
  has an environment of its own that sets \<^verbatim>\<open>font\<close>, and whose second is the string
  \<^verbatim>\<open>"x"\<close>.
\<close>

definition mut_grand :: view where
  "mut_grand = View (init_state ''Text'' 2) [] []"

definition mut_kid :: view where
  "mut_kid =
     View ((init_state ''View'' 1)
             \<lparr>env := Some \<lparr>overrides = (\<lambda>_. None)(''font'' := Some 7), inherited = (\<lambda>_. None)\<rparr>\<rparr>)
          [PView mut_grand] []"

definition mut_old :: view where
  "mut_old = View ((init_state ''View'' 3)\<lparr>parent := Some 0\<rparr>) [] []"

definition mut_root :: view where
  "mut_root =
     View ((init_state ''View'' 0)
             \<lparr>env := Some \<lparr>overrides = (\<lambda>_. None)(''scale'' := Some 2), inherited = (\<lambda>_. None)\<rparr>\<rparr>)
          [PView mut_kid, PSeq ''str'' [PAtom ''str'']] [mut_old]"

section \<open>Hit testing\<close>

lemma contains_simps:
  "contains (Rect (Point x y) (Size w h)) (Point a b) \<longleftrightarrow>
     x \<le> a \<and> a \<le> x + w \<and> y \<le> b \<and> b \<le> y + h"
  by (simp add: contains_def rect_left_def rect_top_def rect_width_def rect_height_def)

lemma find_first_append:
  "find_first pt fs (pre @ rest) =
     (case find_first pt fs pre of Some f \<Rightarrow> Some f | None \<Rightarrow> find_first pt fs rest)"
  by (induction pre) (auto split: option.splits)

lemma find_first_none_iff:
  "find_first pt fs svs = None \<longleftrightarrow> (\<forall>c\<in>set svs. find_view pt fs c = None)"
  by (induction svs) (auto split: option.splits)

lemma find_sound:
  "find_view pt fs v = Some r \<Longrightarrow>
     r \<in> set (preorder v) \<and> contains (frame (vs r)) pt \<and> matches fs r \<and>
     find_first pt fs (subviews r) = None"
  "find_first pt fs svs = Some r \<Longrightarrow>
     r \<in> set (concat (map preorder svs)) \<and> contains (frame (vs r)) pt \<and> matches fs r \<and>
     find_first pt fs (subviews r) = None"
  by (induction pt fs v and pt fs svs rule: find_view_find_first.induct)
     (auto split: if_splits option.splits)

lemma find_all_preorder:
  "find_all fs v = filter (matches fs) (preorder v)"
  "find_all_each fs svs = filter (matches fs) (concat (map preorder svs))"
  by (induction fs v and fs svs rule: find_all_find_all_each.induct) simp_all

lemma find_all_each_concat: "find_all_each fs svs = concat (map (find_all fs) svs)"
  by (induction svs) simp_all

text \<open>
  Claim C1, as stated: for overlapping siblings A (declared first) and B (declared
  second) whose frames both contain a point, \<^verbatim>\<open>find\<close> resolves the point to B, and
  \<^verbatim>\<open>find\<close> recurses into the subviews before it tests the node itself.
  This fails on the code. In \<open>hit_root\<close> the point (65, 30) lies in the frames of both
  siblings and of the parent, and \<^verbatim>\<open>find\<close> answers with A. The point (105, 30) lies in
  the frame of B, where \<^verbatim>\<open>find\<close> on B answers with B, but outside the frame of the
  parent: \<^verbatim>\<open>find\<close> on the parent tests its own frame first and never visits B.
\<close>

theorem find_overlap_counterexample:
  "contains (frame (vs hit_A)) (Point 65 30) \<and> contains (frame (vs hit_B)) (Point 65 30) \<and>
   subviews hit_root = [hit_A, hit_B] \<and>
   find_view (Point 65 30) [] hit_root = Some hit_A \<and>
   find_view (Point 65 30) [] hit_root \<noteq> Some hit_B \<and>
   find_view (Point 105 30) [] hit_B = Some hit_B \<and>
   find_view (Point 105 30) [] hit_root = None"
  by (simp add: hit_root_def hit_A_def hit_B_def framed_def init_state_def contains_simps
      matches_def)

text \<open>
  Claim C1, amended: \<^verbatim>\<open>find\<close> first tests the point against the node's own frame and
  answers no-match, without visiting any subview, when the point is outside. Otherwise
  it visits the subviews in declaration order before it tests the node's own filters,
  and the first subview with a match decides: whatever the later siblings \<open>post\<close> hold,
  the answer is that of the earliest sibling \<open>a\<close> that has one. Only when no subview
  has a match is the node itself tested against the filters.
\<close>

theorem find_first_declared_wins:
  "(\<not> contains (frame (vs v)) pt \<longrightarrow> find_view pt fs v = None) \<and>
   (contains (frame (vs v)) pt \<and> subviews v = pre @ a # post \<and>
    (\<forall>c\<in>set pre. find_view pt fs c = None) \<and> find_view pt fs a = Some r
      \<longrightarrow> find_view pt fs v = Some r) \<and>
   (contains (frame (vs v)) pt \<and> (\<forall>c\<in>set (subviews v). find_view pt fs c = None)
      \<longrightarrow> find_view pt fs v = (if matches fs v then Some v else None))"
proof -
  have "find_view pt fs v = (if matches fs v then Some v else None)"
    if "contains (frame (vs v)) pt" "\<forall>c\<in>set (subviews v). find_view pt fs c = None"
  proof -
    from that(2) have "find_first pt fs (subviews v) = None"
      by (simp add: find_first_none_iff)
    with that(1) show ?thesis
      by (cases v) simp
  qed
  moreover
  have "find_view pt fs v = Some r"
    if "contains (frame (vs v)) pt" "subviews v = pre @ a # post"
       "\<forall>c\<in>set pre. find_view pt fs c = None" "find_view pt fs a = Some r"
  proof -
    from that(3) have "find_first pt fs pre = None"
      by (simp add: find_first_none_iff)
    with that(1,2,4) show ?thesis
      by (cases v) (simp add: find_first_append)
  qed
  moreover have "find_view pt fs v = None" if "\<not> contains (frame (vs v)) pt"
    using that by (cases v) simp
  ultimately show ?thesis by blast
qed

theorem find_first_declared_wins_witness:
  "contains (frame (vs hit_root)) (Point 65 30) \<and>
   subviews hit_root = [] @ hit_A # [hit_B] \<and>
   contains (frame (vs hit_A)) (Point 65 30) \<and> subviews hit_A = [] \<and> matches [] hit_A \<and>
   find_view (Point 65 30) [] hit_A = Some hit_A \<and>
   find_view (Point 65 30) [] hit_B = Some hit_B \<and>
   find_view (Point 65 30) [] hit_root = Some hit_A \<and>
   \<not> contains (frame (vs hit_root)) (Point 105 30) \<and>
   find_view (Point 105 30) [] hit_root = None"
proof -
  have h: "contains (frame (vs hit_root)) (Point 65 30)"
    "subviews hit_root = [] @ hit_A # [hit_B]"
    "find_view (Point 65 30) [] hit_A = Some hit_A"
    "find_view (Point 65 30) [] hit_B = Some hit_B"
    "\<not> contains (frame (vs hit_root)) (Point 105 30)"
    "contains (frame (vs hit_A)) (Point 65 30)" "subviews hit_A = []" "matches [] hit_A"
    by (simp_all add: hit_root_def hit_A_def hit_B_def framed_def init_state_def contains_simps
        matches_def)
  from h find_first_declared_wins[of hit_A "Point 65 30" "[]" "[]" hit_A "[]" hit_A]
    find_first_declared_wins[of hit_root "Point 65 30" "[]" "[]" hit_A "[hit_B]" hit_A]
    find_first_declared_wins[of hit_root "Point 105 30" "[]" "[]" hit_A "[hit_B]" hit_A]
  show ?thesis by simp
qed

lemma first_of_simps: "first_of [] = None" "first_of (x # xs) = Some x"
  by (simp_all add: first_of_def)

lemma first_of_append:
  "first_of (xs @ ys) = (case first_of xs of Some x \<Rightarrow> Some x | None \<Rightarrow> first_of ys)"
  by (cases xs) (simp_all add: first_of_def)

lemma postorder_hits_unfold:
  "postorder_hits pt fs v =
     (if contains (frame (vs v)) pt
      then concat (map (postorder_hits pt fs) (subviews v)) @ (if matches fs v then [v] else [])
      else [])"
  by (cases v) simp

lemma find_first_hit:
  "find_view pt fs v = first_of (postorder_hits pt fs v)"
  "find_first pt fs svs = first_of (concat (map (postorder_hits pt fs) svs))"
proof (induction pt fs v and pt fs svs rule: find_view_find_first.induct)
  case (1 pt fs s cs svs)
  then show ?case
    by (simp add: first_of_append first_of_simps split: option.splits)
next
  case (2 pt fs)
  then show ?case by (simp add: first_of_simps)
next
  case (3 pt fs v rest)
  then show ?case
    by (simp add: first_of_append split: option.splits)
qed

text \<open>
  Claim C6, as stated: \<^verbatim>\<open>find\<close> returns the deepest matching descendant. This fails on
  the code. In \<open>deep_root\<close> the point (20, 20) lies in every frame and every view
  matches; \<open>deep_C\<close>, two levels down under the second child, is the deepest match, and
  \<^verbatim>\<open>find\<close> on the second child alone answers with it. \<^verbatim>\<open>find\<close> on the root answers
  with the first child, one level down: its loop returns at the first subview that has a
  match.
\<close>
theorem find_not_deepest_counterexample:
  "subviews deep_root = [deep_A, deep_B] \<and> subviews deep_A = [] \<and> subviews deep_B = [deep_C] \<and>
   contains (frame (vs deep_C)) (Point 20 20) \<and> matches [] deep_C \<and>
   find_view (Point 20 20) [] deep_B = Some deep_C \<and>
   find_view (Point 20 20) [] deep_root = Some deep_A \<and>
   find_view (Point 20 20) [] deep_root \<noteq> Some deep_C"
  by (simp add: deep_root_def deep_A_def deep_B_def deep_C_def framed_def init_state_def
      contains_simps matches_def)

text \<open>
  Claim C6, amended: \<^verbatim>\<open>find\<close> returns the first match in post-order among the views
  reached through frames that contain the point, and no-match exactly when there is
  none. The view it returns is innermost, in that none of its own subviews has a match,
  but it need not be the deepest match of the tree: a match under an earlier sibling
  wins over a deeper one under a later sibling. \<^verbatim>\<open>find_all\<close> returns the matches in
  pre-order: it is the pre-order listing of the tree with the views that fail the
  filters left out, so a matching view stands before every match below it. On the
  three-level chain the two orders are the reverse of each other: \<^verbatim>\<open>find\<close> answers
  with the deepest view, \<^verbatim>\<open>find_all\<close> begins with the root.
\<close>
theorem find_first_postorder_find_all_preorder:
  "find_view pt fs v = first_of (postorder_hits pt fs v) \<and>
   (contains (frame (vs v)) pt \<and> matches fs v \<longrightarrow> find_view pt fs v \<noteq> None) \<and>
   (find_view pt fs v = Some r \<longrightarrow>
      r \<in> set (preorder v) \<and> contains (frame (vs r)) pt \<and> matches fs r \<and>
      (\<forall>c\<in>set (subviews r). find_view pt fs c = None)) \<and>
   find_all fs v = filter (matches fs) (preorder v) \<and>
   find_all fs v = (if matches fs v then [v] else []) @ concat (map (find_all fs) (subviews v))"
proof -
  have "find_all fs v = (if matches fs v then [v] else []) @ concat (map (find_all fs) (subviews v))"
    by (cases v) (simp add: find_all_each_concat)
  moreover have "find_view pt fs v \<noteq> None" if "contains (frame (vs v)) pt" "matches fs v"
    using that by (cases v) (simp split: option.splits)
  ultimately show ?thesis
    using find_sound(1)[of pt fs v r] find_all_preorder(1)[of fs v] find_first_hit(1)[of pt fs v]
    by (simp add: find_first_none_iff)
qed

theorem find_first_postorder_find_all_preorder_witness:
  "postorder_hits (Point 25 25) [(''interactive'', Some (AInt 1))] chain_root
     = [chain_leaf, chain_mid, chain_root] \<and>
   find_view (Point 25 25) [(''interactive'', Some (AInt 1))] chain_root = Some chain_leaf \<and>
   contains (frame (vs chain_root)) (Point 25 25) \<and>
   matches [(''interactive'', Some (AInt 1))] chain_root \<and>
   subviews chain_leaf = [] \<and>
   matches [(''interactive'', Some (AInt 1))] chain_leaf \<and>
   find_all [(''interactive'', Some (AInt 1))] chain_root = [chain_root, chain_mid, chain_leaf] \<and>
   chain_root \<noteq> chain_leaf \<and>
   postorder_hits (Point 20 20) [] deep_root = [deep_A, deep_C, deep_B, deep_root] \<and>
   find_view (Point 20 20) [] deep_root = Some deep_A \<and>
   find_all [] deep_root = [deep_root, deep_A, deep_B, deep_C] \<and>
   postorder_hits (Point 205 25) [(''interactive'', Some (AInt 1))] chain_root = [] \<and>
   find_view (Point 205 25) [(''interactive'', Some (AInt 1))] chain_root = None \<and>
   postorder_hits (Point 20 20) [(''index'', Some (AInt 1))] deep_root = [deep_B] \<and>
   find_view (Point 20 20) [(''index'', Some (AInt 1))] deep_root = Some deep_B \<and>
   subviews deep_B = [deep_C] \<and> contains (frame (vs deep_C)) (Point 20 20)"
proof -
  let ?fs = "[(''interactive'', Some (AInt 1))]"
  have m: "matches ?fs chain_root" "matches ?fs chain_mid" "matches ?fs chain_leaf"
    by (simp_all add: chain_root_def chain_mid_def chain_leaf_def framed_def init_state_def
        matches_def py_getattr_def)
  have c: "contains (frame (vs chain_root)) (Point 25 25)"
    "contains (frame (vs chain_mid)) (Point 25 25)" "contains (frame (vs chain_leaf)) (Point 25 25)"
    "\<not> contains (frame (vs chain_root)) (Point 205 25)"
    by (simp_all add: chain_root_def chain_mid_def chain_leaf_def framed_def init_state_def
        contains_simps)
  have sv: "subviews chain_leaf = []" "subviews chain_mid = [chain_leaf]"
    "subviews chain_root = [chain_mid]"
    by (simp_all add: chain_root_def chain_mid_def chain_leaf_def)
  have hl: "postorder_hits (Point 25 25) ?fs chain_leaf = [chain_leaf]"
    by (subst postorder_hits_unfold) (simp add: m c sv)
  have hm: "postorder_hits (Point 25 25) ?fs chain_mid = [chain_leaf, chain_mid]"
    by (subst postorder_hits_unfold) (simp add: m c sv hl)
  have h: "postorder_hits (Point 25 25) ?fs chain_root = [chain_leaf, chain_mid, chain_root]"
    by (subst postorder_hits_unfold) (simp add: m c sv hm)
  have h0: "postorder_hits (Point 205 25) ?fs chain_root = []"
    by (subst postorder_hits_unfold) (simp add: c)
  have p: "preorder chain_root = [chain_root, chain_mid, chain_leaf]"
    by (simp add: chain_root_def chain_mid_def chain_leaf_def)
  have ne: "chain_root \<noteq> chain_leaf"
    by (simp add: chain_root_def chain_leaf_def)
  have d: "postorder_hits (Point 20 20) [] deep_root = [deep_A, deep_C, deep_B, deep_root]"
    "preorder deep_root = [deep_root, deep_A, deep_B, deep_C]"
    "matches [] deep_root" "matches [] deep_A" "matches [] deep_B" "matches [] deep_C"
    by (simp_all add: deep_root_def deep_A_def deep_B_def deep_C_def framed_def init_state_def
        contains_simps matches_def)
  note t1 = find_first_postorder_find_all_preorder[of "Point 25 25" ?fs chain_root chain_leaf]
  note t2 = find_first_postorder_find_all_preorder[of "Point 20 20" "[]" deep_root deep_A]
  note t3 = find_first_postorder_find_all_preorder[of "Point 205 25" ?fs chain_root chain_leaf]
  have f1: "find_view (Point 25 25) ?fs chain_root = Some chain_leaf"
    using t1[THEN conjunct1] h by (simp add: first_of_simps)
  have f2: "find_view (Point 20 20) [] deep_root = Some deep_A"
    using t2[THEN conjunct1] d(1) by (simp add: first_of_simps)
  have f3: "find_view (Point 205 25) ?fs chain_root = None"
    using t3[THEN conjunct1] h0 by (simp add: first_of_simps)
  have a1: "find_all ?fs chain_root = [chain_root, chain_mid, chain_leaf]"
    using t1[THEN conjunct2, THEN conjunct2, THEN conjunct2, THEN conjunct1] p m by simp
  have a2: "find_all [] deep_root = [deep_root, deep_A, deep_B, deep_C]"
    using t2[THEN conjunct2, THEN conjunct2, THEN conjunct2, THEN conjunct1] d by simp
  have b: "postorder_hits (Point 20 20) [(''index'', Some (AInt 1))] deep_root = [deep_B]"
    "subviews deep_B = [deep_C]" "contains (frame (vs deep_C)) (Point 20 20)"
    by (simp_all add: deep_root_def deep_A_def deep_B_def deep_C_def framed_def init_state_def
        contains_simps matches_def py_getattr_def)
  have f4: "find_view (Point 20 20) [(''index'', Some (AInt 1))] deep_root = Some deep_B"
    using find_first_postorder_find_all_preorder
            [of "Point 20 20" "[(''index'', Some (AInt 1))]" deep_root deep_B, THEN conjunct1] b(1)
    by (simp add: first_of_simps)
  show ?thesis
    using f1 f2 f3 f4 a1 a2 b h h0 m(1,3) c(1) sv(1) ne d(1) by simp
qed
section \<open>Measuring and positioning\<close>

lemma minimum_size_loop_fold:
  "minimum_size_loop svs mw mh = fold min_step svs (Size mw mh)"
  by (induction svs arbitrary: mw mh) (simp_all add: min_step_def Let_def)

text \<open>
  Claim C8: \<^verbatim>\<open>minimum_size()\<close> of a view whose class does not override it is the fold
  over its subviews, in order and from zero on both axes, of the update
  \<open>max (child.minimum_size()[axis]) (running[axis] + child.padding[axis] + child.border[axis])\<close>.
\<close>

theorem minimum_size_fold:
  "minimum_size_m (vs v) = None \<Longrightarrow> minimum_size v = fold min_step (subviews v) (Size 0 0)"
  by (cases v) (simp add: minimum_size_loop_fold)

theorem minimum_size_fold_witness:
  "minimum_size_m (vs min_root) = None \<and>
   minimum_size min_root = fold min_step (subviews min_root) (Size 0 0) \<and>
   minimum_size min_root = Size 62 40"
proof -
  have h: "minimum_size_m (vs min_root) = None"
    by (simp add: min_root_def init_state_def)
  have "minimum_size min_root = Size 62 40"
    by (simp add: min_root_def min_A_def min_B_def init_state_def ins_axis_def ins_width_def
        ins_height_def)
  with h minimum_size_fold[OF h] show ?thesis by simp
qed

lemma Max_cons2: "Max (set (a # b # xs)) = Max (set (max a b # xs))" for a :: int
  by (cases "xs = []") (simp_all add: max.assoc)

lemma Max_cons_floor: "0 \<le> a \<Longrightarrow> Max (set (0 # a # xs)) = Max (set (a # xs))" for a :: int
  by (simp add: Max_cons2 del: set_simps list.simps(15))

lemma fold_max_Max:
  "fold (\<lambda>c m. max m (f c)) svs (m0::int) = Max (set (m0 # map f svs))"
proof (induction svs arbitrary: m0)
  case Nil
  then show ?case by simp
next
  case (Cons c svs)
  have "fold (\<lambda>c m. max m (f c)) (c # svs) m0 = Max (set (max m0 (f c) # map f svs))"
    using Cons[of "max m0 (f c)"] by simp
  also have "\<dots> = Max (set (m0 # map f (c # svs)))"
    using Max_cons2[of m0 "f c" "map f svs"] by simp
  finally show ?case .
qed

lemma resize_loop_eq:
  "resize_loop inside svs mw mh =
     (map (resize inside) svs,
      fold (\<lambda>c m. max m (rect_width (frame (vs (resize inside c))))) svs mw,
      fold (\<lambda>c m. max m (rect_height (frame (vs (resize inside c))))) svs mh)"
  by (induction svs arbitrary: mw mh) (simp_all add: Let_def)

lemma resize_unfold:
  "resize available v =
     (let inside = Size (max 0 (size_w available - ins_width (padding (vs v)) - ins_width (border (vs v))))
                        (max 0 (size_h available - ins_height (padding (vs v)) - ins_height (border (vs v))));
          kids = map (resize inside) (subviews v);
          sz = content_size v inside
      in View ((vs v)\<lparr>frame := Rect (origin (frame (vs v)))
                 (Size (Max (set (0 # size_w sz # map (\<lambda>c. rect_width (frame (vs c))) kids))
                          + ins_width (padding (vs v)) + ins_width (border (vs v)))
                       (Max (set (0 # size_h sz # map (\<lambda>c. rect_height (frame (vs c))) kids))
                          + ins_height (padding (vs v)) + ins_height (border (vs v))))\<rparr>)
            (contents v) kids)"
proof (cases v)
  case (View s cs svs)
  have m: "max (Max (set (0 # xs))) (a::int) = Max (set (0 # a # xs))" for xs a
    by (cases "xs = []") (simp_all add: max.commute max.left_commute)
  show ?thesis
    unfolding View
    by (simp add: resize_loop_eq fold_max_Max Let_def content_size_def m o_def
          del: set_simps list.simps(15))
qed

text \<open>
  Claim C4: for every view and every offered size, \<^verbatim>\<open>resize\<close> works with
  \<open>inside = available - padding - border\<close> floored at zero on each axis by itself,
  resizes every subview with \<open>inside\<close>, and sets the frame size to the largest of the
  subviews' resulting frame sizes and \<open>content_size(inside)\<close>, on each axis, plus the
  view's padding and border. The running maximum starts at zero, which changes nothing
  when \<open>content_size\<close> answers with a size that is not negative.
\<close>

theorem resize_frame_size:
  "(let inside = Size (max 0 (size_w available - ins_width (padding (vs v)) - ins_width (border (vs v))))
                      (max 0 (size_h available - ins_height (padding (vs v)) - ins_height (border (vs v))));
        kids = map (resize inside) (subviews v);
        sz = content_size v inside;
        r = resize available v
    in 0 \<le> size_w inside \<and> 0 \<le> size_h inside \<and>
       subviews r = kids \<and>
       rect_width (frame (vs r)) =
         Max (set (0 # size_w sz # map (\<lambda>c. rect_width (frame (vs c))) kids))
           + ins_width (padding (vs v)) + ins_width (border (vs v)) \<and>
       rect_height (frame (vs r)) =
         Max (set (0 # size_h sz # map (\<lambda>c. rect_height (frame (vs c))) kids))
           + ins_height (padding (vs v)) + ins_height (border (vs v)) \<and>
       (0 \<le> size_w sz \<longrightarrow>
          rect_width (frame (vs r)) =
            Max (set (size_w sz # map (\<lambda>c. rect_width (frame (vs c))) kids))
              + ins_width (padding (vs v)) + ins_width (border (vs v))) \<and>
       (0 \<le> size_h sz \<longrightarrow>
          rect_height (frame (vs r)) =
            Max (set (size_h sz # map (\<lambda>c. rect_height (frame (vs c))) kids))
              + ins_height (padding (vs v)) + ins_height (border (vs v))))"
proof -
  show ?thesis
    unfolding Let_def
    by (subst (1 2 3 4 5) resize_unfold)
       (simp add: Let_def rect_width_def rect_height_def Max_cons_floor del: set_simps list.simps(15))
qed

theorem resize_frame_size_witness:
  "subviews (resize (Size 5 300) sized_root) = [resize (Size 0 280) sized_leaf] \<and>
   rsize (frame (vs (resize (Size 0 280) sized_leaf))) = Size 50 20 \<and>
   0 \<le> size_w (content_size sized_root (Size 0 280)) \<and>
   0 \<le> size_h (content_size sized_root (Size 0 280)) \<and>
   rect_width (frame (vs (resize (Size 5 300) sized_root))) = 70 \<and>
   rect_height (frame (vs (resize (Size 5 300) sized_root))) = 40"
proof -
  have i: "max 0 (size_w (Size 5 300) - ins_width (padding (vs sized_root)) - ins_width (border (vs sized_root))) = 0"
    "max 0 (size_h (Size 5 300) - ins_height (padding (vs sized_root)) - ins_height (border (vs sized_root))) = 280"
    by (simp_all add: sized_root_def init_state_def ins_width_def ins_height_def)
  have l: "rsize (frame (vs (resize (Size 0 280) sized_leaf))) = Size 50 20"
    by (simp add: sized_leaf_def init_state_def ins_width_def ins_height_def content_size_def)
  have c: "content_size sized_root (Size 0 280) = Size 0 0"
    by (simp add: sized_root_def init_state_def content_size_def)
  have s: "subviews sized_root = [sized_leaf]"
    "ins_width (padding (vs sized_root)) = 20" "ins_height (padding (vs sized_root)) = 20"
    "ins_width (border (vs sized_root)) = 0" "ins_height (border (vs sized_root)) = 0"
    by (simp_all add: sized_root_def init_state_def ins_width_def ins_height_def)
  from resize_frame_size[of "Size 5 300" sized_root] show ?thesis
    by (simp add: Let_def i l c s rect_width_def rect_height_def)
qed

text \<open>
  Claim C2, as stated: the subviews are repositioned within the view's own frame less
  its padding and border. This fails on the code: \<open>centre_root\<close>, 5 wide, is centred
  in a rect 10 wide at 2, so its frame spans 2 to 7 and a subview 2 wide centred in it
  would start at 3; the code centres the subview in the enclosing rect and puts it at 4.
\<close>

theorem reposition_inner_counterexample:
  "padding (vs centre_root) = Insets 0 0 0 0 \<and> border (vs centre_root) = Insets 0 0 0 0 \<and>
   frame (vs (reposition (Rect (Point 0 0) (Size 10 10)) centre_root)) = Rect (Point 2 2) (Size 5 5) \<and>
   map (\<lambda>c. origin (frame (vs c))) (subviews (reposition (Rect (Point 0 0) (Size 10 10)) centre_root))
     = [Point 4 4] \<and>
   map (\<lambda>c. origin (frame (vs c)))
     (map (reposition (rect_sub (rect_sub (frame (vs (reposition (Rect (Point 0 0) (Size 10 10)) centre_root)))
                                  (padding (vs centre_root))) (border (vs centre_root))))
          (subviews centre_root))
     = [Point 3 3]"
  by (simp add: centre_root_def centre_leaf_def init_state_def rect_sub_def rect_left_def
      rect_top_def rect_width_def rect_height_def ins_width_def ins_height_def)

text \<open>
  Claim C2, amended: \<^verbatim>\<open>reposition(inside)\<close> sets the frame origin to
  \<open>inside.origin + (inside.size - frame.size) div 2\<close> on each axis, keeps the frame
  size, and repositions every subview within \<open>inside - padding - border\<close>, the
  enclosing rect less the view's own padding and border.
\<close>

theorem reposition_centres_in_inside:
  "origin (frame (vs (reposition inside v))) =
     Point (rect_left inside + (rect_width inside - rect_width (frame (vs v))) div 2)
           (rect_top inside + (rect_height inside - rect_height (frame (vs v))) div 2) \<and>
   rsize (frame (vs (reposition inside v))) = rsize (frame (vs v)) \<and>
   subviews (reposition inside v) =
     map (reposition (rect_sub (rect_sub inside (padding (vs v))) (border (vs v)))) (subviews v)"
  by (cases v) (simp add: Let_def)

theorem reposition_centres_in_inside_witness:
  "origin (frame (vs (reposition (Rect (Point 0 0) (Size 10 10)) centre_root))) = Point 2 2 \<and>
   rsize (frame (vs (reposition (Rect (Point 0 0) (Size 10 10)) centre_root))) = Size 5 5 \<and>
   subviews (reposition (Rect (Point 0 0) (Size 10 10)) centre_root) =
     [reposition (Rect (Point 0 0) (Size 10 10)) centre_leaf]"
proof -
  have "rect_sub (rect_sub (Rect (Point 0 0) (Size 10 10)) (padding (vs centre_root))) (border (vs centre_root))
          = Rect (Point 0 0) (Size 10 10)"
    by (simp add: centre_root_def init_state_def rect_sub_def rect_left_def
      rect_top_def rect_width_def rect_height_def ins_width_def ins_height_def)
  moreover have "subviews centre_root = [centre_leaf]" "frame (vs centre_root) = Rect (Point 0 0) (Size 5 5)"
    by (simp_all add: centre_root_def)
  ultimately show ?thesis
    using reposition_centres_in_inside[of "Rect (Point 0 0) (Size 10 10)" centre_root]
    by (simp add: rect_left_def rect_top_def rect_width_def rect_height_def)
qed

section \<open>Reconciliation\<close>

lemmas rb_defs = rb_bad_def rb_good_def rb_child_def rb_grand_def rb_each_def rb_built_def rb_late_def rb_old_def

lemma faults_contents: "contents a = contents b \<Longrightarrow> faults a = faults b"
  by (cases a; cases b) (simp add: content_def)

lemma contents_attach: "contents (snd (attach s cenv idx c)) = contents c"
  by (simp add: attach_def Let_def split: option.splits)

lemma first_fault_simps: "first_fault [] = None" "first_fault (e # es) = Some e"
  by (simp_all add: first_fault_def)

lemma first_fault_append:
  "first_fault (xs @ ys) = (case first_fault xs of Some e \<Rightarrow> Some e | None \<Rightarrow> first_fault ys)"
  by (cases xs) (simp_all add: first_fault_def)

lemma rebuild_raised:
  "fst (rebuild cenv v) = first_fault (faults v)"
  "fst (rebuild_loop s cenv idx new xs) =
     first_fault (concat (map (\<lambda>x. case as_view x of
                          None \<Rightarrow> [ValueError (class_name x)]
                        | Some c \<Rightarrow> faults c) xs))"
proof (induction cenv v and s cenv idx new xs rule: rebuild_rebuild_loop.induct)
  case (1 cenv s cs svs)
  obtain produced stop where c: "content (View s cs svs) = (produced, stop)"
    by (cases "content (View s cs svs)")
  obtain e cenv' new where l: "rebuild_loop s cenv 0 [] produced = (e, cenv', new)"
    by (cases "rebuild_loop s cenv 0 [] produced")
  let ?g = "\<lambda>x. case as_view x of None \<Rightarrow> [ValueError (class_name x)] | Some c \<Rightarrow> faults c"
  have e: "first_fault (concat (map ?g produced)) = e"
    using 1(1)[OF c[symmetric]] l by simp
  show ?case
  proof (cases e)
    case None
    with e l c show ?thesis
      by (cases stop) (simp_all add: first_fault_append first_fault_simps)
  next
    case (Some err)
    with e l c show ?thesis
      by (simp add: first_fault_append)
  qed
next
  case (2 s cenv idx new_subviews)
  then show ?case by (simp add: first_fault_simps)
next
  case (3 s cenv idx new_subviews x rest)
  show ?case
  proof (cases "as_view x")
    case None
    then show ?thesis by (simp add: first_fault_simps)
  next
    case (Some c)
    obtain cenv1 c1 where a: "attach s cenv idx c = (cenv1, c1)" by (cases "attach s cenv idx c")
    obtain e cenv2 c2 n where r: "rebuild cenv1 c1 = (e, cenv2, c2, n)"
      by (cases "rebuild cenv1 c1") auto
    have f: "faults c1 = faults c"
      using contents_attach[of s cenv idx c] a by (auto intro: faults_contents)
    from 3(1)[OF Some a[symmetric]] r f have e: "first_fault (faults c) = e" by simp
    show ?thesis
    proof (cases e)
      case None
      with 3(2)[OF Some a[symmetric] r[symmetric]] Some a r e show ?thesis
        by (simp add: first_fault_append)
    next
      case (Some err)
      with \<open>as_view x = Some c\<close> a r e show ?thesis
        by (simp add: first_fault_append)
    qed
  qed
qed

lemma rebuild_result:
  "rebuild cenv v = (e, cenv', v', new) \<Longrightarrow> v' = (if e = None then View (vs v) (contents v) new else v)"
  by (cases v) (auto split: prod.splits option.splits)

lemma vs_attach:
  "vs (snd (attach s cenv idx c)) =
     (vs c)\<lparr>parent := Some (oid s), index := idx,
             env := map_option (\<lambda>e. inherit e (case env s of Some p \<Rightarrow> p | None \<Rightarrow> cenv)) (env (vs c))\<rparr>"
  by (simp add: attach_def Let_def split: option.splits)

lemma rebuild_loop_append:
  "rebuild_loop s cenv idx new (pre @ rest) =
     (case rebuild_loop s cenv idx new pre of
        (Some e, cenv', new') \<Rightarrow> (Some e, cenv', new')
      | (None, cenv', new') \<Rightarrow> rebuild_loop s cenv' (idx + int (length pre)) new' rest)"
proof (induction pre arbitrary: cenv idx new)
  case Nil
  then show ?case by simp
next
  case (Cons x pre)
  show ?case
  proof (cases "as_view x")
    case None
    then show ?thesis by simp
  next
    case (Some c)
    obtain cenv1 c1 where a: "attach s cenv idx c = (cenv1, c1)" by (cases "attach s cenv idx c")
    obtain e cenv2 c2 n where r: "rebuild cenv1 c1 = (e, cenv2, c2, n)"
      by (cases "rebuild cenv1 c1") auto
    show ?thesis
    proof (cases e)
      case None
      have eq: "idx + int (length (x # pre)) = idx + 1 + int (length pre)" by simp
      from None Some a r Cons[of cenv2 "idx + 1" "new @ [c2]"] show ?thesis
        unfolding eq by simp
    next
      case (Some err)
      with \<open>as_view x = Some c\<close> a r show ?thesis by simp
    qed
  qed
qed

lemma rebuild_loop_ok:
  "rebuild_loop s cenv idx new xs = (None, cenv', new') \<Longrightarrow>
     \<exists>kids. new' = new @ kids \<and> length kids = length xs \<and>
       (\<forall>i<length xs. \<exists>c e0 e1 e2 a.
           as_view (xs ! i) = Some c \<and> attach s e0 (idx + int i) c = (e1, a) \<and>
           rebuild e1 a = (None, e2, kids ! i, subviews (kids ! i)))"
proof (induction xs arbitrary: cenv idx new)
  case Nil
  then show ?case by simp
next
  case (Cons x xs)
  from Cons.prems obtain c where c: "as_view x = Some c"
    by (cases "as_view x") auto
  obtain cenv1 c1 where a: "attach s cenv idx c = (cenv1, c1)" by (cases "attach s cenv idx c")
  obtain e cenv2 c2 n where r: "rebuild cenv1 c1 = (e, cenv2, c2, n)"
    by (cases "rebuild cenv1 c1") auto
  from Cons.prems c a r have e: "e = None"
    by (cases e) auto
  from rebuild_result[OF r] e have n: "n = subviews c2" by simp
  from Cons.prems c a r e have "rebuild_loop s cenv2 (idx + 1) (new @ [c2]) xs = (None, cenv', new')"
    by simp
  from Cons.IH[OF this] obtain kids where k: "new' = (new @ [c2]) @ kids" "length kids = length xs"
    and ki: "\<forall>i<length xs. \<exists>c e0 e1 e2 a.
           as_view (xs ! i) = Some c \<and> attach s e0 (idx + 1 + int i) c = (e1, a) \<and>
           rebuild e1 a = (None, e2, kids ! i, subviews (kids ! i))"
    by blast
  have "\<exists>c e0 e1 e2 a.
           as_view ((x # xs) ! i) = Some c \<and> attach s e0 (idx + int i) c = (e1, a) \<and>
           rebuild e1 a = (None, e2, (c2 # kids) ! i, subviews ((c2 # kids) ! i))"
    if "i < length (x # xs)" for i
  proof (cases i)
    case 0
    with c a r e n show ?thesis by auto
  next
    case (Suc j)
    with that have "j < length xs" by simp
    with ki obtain c' e0 e1 e2 a' where
      "as_view (xs ! j) = Some c'" "attach s e0 (idx + 1 + int j) c' = (e1, a')"
      "rebuild e1 a' = (None, e2, kids ! j, subviews (kids ! j))"
      by blast
    then have "as_view ((x # xs) ! i) = Some c'" "attach s e0 (idx + int i) c' = (e1, a')"
      "rebuild e1 a' = (None, e2, (c2 # kids) ! i, subviews ((c2 # kids) ! i))"
      using Suc by (simp_all add: ac_simps)
    then show ?thesis by blast
  qed
  with k show ?case
    by (intro exI[of _ "c2 # kids"]) simp
qed

lemma faults_iterable: "iterable v \<Longrightarrow> faults v = map ValueError (offending v)"
proof (induction v rule: faults.induct)
  case (1 s cs svs)
  have "(case as_view x of None \<Rightarrow> [ValueError (class_name x)] | Some c \<Rightarrow> faults c)
          = map ValueError (case as_view x of None \<Rightarrow> [class_name x] | Some c \<Rightarrow> offending c)"
    if "x \<in> set (fst (content (View s cs svs)))" for x
  proof (cases "as_view x")
    case None
    then show ?thesis by simp
  next
    case (Some c)
    from 1(2) that Some have "iterable c"
      by (auto simp: list_all_iff)
    with 1(1)[OF that Some] Some show ?thesis by simp
  qed
  then have eq:
    "map (\<lambda>x. case as_view x of None \<Rightarrow> [ValueError (class_name x)] | Some c \<Rightarrow> faults c)
               (fst (content (View s cs svs)))
           = map (\<lambda>x. map ValueError (case as_view x of None \<Rightarrow> [class_name x] | Some c \<Rightarrow> offending c))
               (fst (content (View s cs svs)))"
    by (intro map_cong refl)
  from 1(2) have "snd (content (View s cs svs)) = None" by simp
  then have l: "faults (View s cs svs) =
      concat (map (\<lambda>x. case as_view x of None \<Rightarrow> [ValueError (class_name x)] | Some c \<Rightarrow> faults c)
               (fst (content (View s cs svs))))"
    by simp
  have r: "map ValueError (offending (View s cs svs)) =
      concat (map (\<lambda>x. map ValueError (case as_view x of None \<Rightarrow> [class_name x] | Some c \<Rightarrow> offending c))
               (fst (content (View s cs svs))))"
    by (simp add: map_concat o_def)
  show ?case unfolding l r eq ..
qed

lemma rb_bad_content:
  "content rb_bad = ([PView rb_child, PView rb_built, PAtom ''int'', PView rb_late], None)"
  by (simp add: content_def rb_bad_def)

lemma rb_good_content:
  "content rb_good = ([PView rb_child, PView rb_built], None)"
  by (simp add: content_def rb_good_def)

lemma rb_leaf_facts:
  "offending rb_child = []" "iterable rb_child" "offending rb_built = []" "iterable rb_built"
  "offending rb_late = []" "iterable rb_late" "faults rb_child = []" "faults rb_built = []"
  by (simp_all add: rb_child_def rb_grand_def rb_built_def rb_late_def content_def)

lemma rb_bad_facts: "iterable rb_bad" "offending rb_bad = [''int'']"
  using rb_bad_content rb_leaf_facts by (simp_all add: rb_bad_def)

lemma rb_good_facts: "iterable rb_good" "offending rb_good = []"
  using rb_good_content rb_leaf_facts by (simp_all add: rb_good_def)

lemma rebuild_vs: "vs (fst (snd (snd (rebuild cenv v)))) = vs v"
  by (cases v) (auto split: prod.splits option.splits)

lemma inherit_env0: "inherit env0 env0 = env0"
  by (simp add: inherit_def env0_def env_read_def fun_eq_iff)

text \<open>
  Claim C3: where every declared child is iterable, \<^verbatim>\<open>rebuild\<close> raises the
  \<^verbatim>\<open>ValueError\<close> exactly when some declared child, of the view or of a view produced
  below it, expands to a value that is not a \<^verbatim>\<open>View\<close>, and the error names the class
  of the first such value. Whenever \<^verbatim>\<open>rebuild\<close> raises, the receiver is as it was, so
  \<^verbatim>\<open>subviews\<close> keeps the list it had. When \<^verbatim>\<open>rebuild\<close> returns, \<^verbatim>\<open>subviews\<close> is the
  complete new list, one view for each value produced.
\<close>

theorem rebuild_raises_iff_malformed:
  assumes "rebuild cenv v = (e, cenv', v', new_subviews)"
  shows "(iterable v \<longrightarrow>
            ((\<exists>t. e = Some (ValueError t)) \<longleftrightarrow> offending v \<noteq> []) \<and>
            (e \<noteq> None \<longrightarrow> e = Some (ValueError (hd (offending v))))) \<and>
         (e \<noteq> None \<longrightarrow> v' = v \<and> subviews v' = subviews v) \<and>
         (e = None \<longrightarrow> v' = View (vs v) (contents v) new_subviews \<and>
                        length (subviews v') = length (fst (content v)))"
proof -
  have a: "e = first_fault (map ValueError (offending v))" if "iterable v"
    using that rebuild_raised(1)[of cenv v] assms by (simp add: faults_iterable)
  have b: "first_fault (map ValueError ts) = (case ts of [] \<Rightarrow> None | t # _ \<Rightarrow> Some (ValueError t))" for ts
    by (cases ts) (simp_all add: first_fault_simps)
  have c: "length new_subviews = length (fst (content v))" if "e = None"
  proof -
    obtain s cs svs where v: "v = View s cs svs" by (cases v)
    obtain produced stop where p: "content (View s cs svs) = (produced, stop)"
      by (cases "content (View s cs svs)")
    from assms that v p have "rebuild_loop s cenv 0 [] produced = (None, cenv', new_subviews)"
      by (auto split: prod.splits option.splits)
    from rebuild_loop_ok[OF this] v p show ?thesis by auto
  qed
  show ?thesis
    using a b[of "offending v"] rebuild_result[OF assms] c
    by (auto split: list.splits)
qed

theorem rebuild_raises_iff_malformed_witness:
  "iterable rb_bad \<and> offending rb_bad = [''int''] \<and>
   rebuild env0 rb_bad = (Some (ValueError ''int''), env0, rb_bad, [mutated_child, mutated_built]) \<and>
   subviews rb_bad = [rb_old] \<and>
   iterable rb_good \<and> offending rb_good = [] \<and>
   rebuild env0 rb_good =
     (None, env0, View (vs rb_good) (contents rb_good) [mutated_child, mutated_built],
      [mutated_child, mutated_built]) \<and>
   fst (content rb_good) = [PView rb_child, PView rb_built]"
proof -
  have b: "rebuild env0 rb_bad = (Some (ValueError ''int''), env0, rb_bad, [mutated_child, mutated_built])"
    by (simp add: rb_defs mutated_child_def mutated_built_def content_def attach_def init_state_def
        inherit_env0)
  have g: "rebuild env0 rb_good =
     (None, env0, View (vs rb_good) (contents rb_good) [mutated_child, mutated_built],
      [mutated_child, mutated_built])"
    by (simp add: rb_defs mutated_child_def mutated_built_def content_def attach_def init_state_def
        inherit_env0)
  have s: "subviews rb_bad = [rb_old]" by (simp add: rb_bad_def)
  from rebuild_raises_iff_malformed[OF b] rebuild_raises_iff_malformed[OF g]
    rb_bad_facts rb_good_facts rb_good_content s b g
  show ?thesis by simp
qed

lemma rebuild_loop_prefix:
  assumes "rebuild_loop s cenv idx new xs = (None, cenv', new')" and "i < length xs"
  shows "\<exists>c e0 e1 e2 a.
           as_view (xs ! i) = Some c \<and>
           rebuild_loop s cenv idx new (take i xs) = (None, e0, take (length new + i) new') \<and>
           attach s e0 (idx + int i) c = (e1, a) \<and>
           rebuild e1 a = (None, e2, new' ! (length new + i), subviews (new' ! (length new + i)))"
proof -
  obtain e e0 n0 where pre: "rebuild_loop s cenv idx new (take i xs) = (e, e0, n0)"
    by (cases "rebuild_loop s cenv idx new (take i xs)")
  have xs: "xs = take i xs @ xs ! i # drop (Suc i) xs"
    using assms(2) by (simp add: id_take_nth_drop)
  have li: "length (take i xs) = i" using assms(2) by simp
  from assms(1) have whole: "rebuild_loop s cenv idx new (take i xs @ xs ! i # drop (Suc i) xs)
      = (None, cenv', new')"
    using xs by simp
  from whole pre have e: "e = None"
    by (cases e) (simp_all add: rebuild_loop_append)
  have "rebuild_loop s cenv idx new (take i xs @ xs ! i # drop (Suc i) xs)
      = rebuild_loop s e0 (idx + int (length (take i xs))) n0 (xs ! i # drop (Suc i) xs)"
    using pre e by (simp add: rebuild_loop_append del: rebuild_loop.simps length_take)
  with whole have rest: "rebuild_loop s e0 (idx + int i) n0 (xs ! i # drop (Suc i) xs)
      = (None, cenv', new')"
    unfolding li by simp
  from rest obtain c where c: "as_view (xs ! i) = Some c"
    by (cases "as_view (xs ! i)") auto
  obtain e1 a where at: "attach s e0 (idx + int i) c = (e1, a)"
    by (cases "attach s e0 (idx + int i) c")
  obtain er e2 c2 n where r: "rebuild e1 a = (er, e2, c2, n)"
    by (cases "rebuild e1 a") auto
  from rest c at r have er: "er = None" by (cases er) auto
  from rebuild_result[OF r] er have n: "n = subviews c2" by simp
  from rest c at r er have tail: "rebuild_loop s e2 (idx + int i + 1) (n0 @ [c2]) (drop (Suc i) xs)
      = (None, cenv', new')"
    by simp
  from rebuild_loop_ok[OF pre[unfolded e]] li obtain k0 where k0: "n0 = new @ k0" "length k0 = i"
    by auto
  from rebuild_loop_ok[OF tail] obtain k2 where k2: "new' = (n0 @ [c2]) @ k2"
    by auto
  from k0 k2 have "take (length new + i) new' = n0" "new' ! (length new + i) = c2"
    by (simp_all add: nth_append)
  with c pre e at r er n show ?thesis by auto
qed

lemma attach_eq:
  "attach s cenv idx c =
     (if env (vs c) = None then inherit cenv (self_env s cenv) else cenv,
      View ((vs c)\<lparr>parent := Some (oid s), index := idx,
                   env := map_option (\<lambda>e. inherit e (self_env s cenv)) (env (vs c))\<rparr>)
           (contents c) (subviews c))"
  by (simp add: attach_def self_env_def Let_def split: option.splits)

text \<open>
  Claim C10: take a view that holds each object once. When the values produced are the
  views \<open>pre\<close>, each reconciled without an exception, and then a value \<open>x\<close> that is not
  a view, \<^verbatim>\<open>rebuild\<close> raises the \<^verbatim>\<open>ValueError\<close> for \<open>x\<close> and the receiver, with its
  \<^verbatim>\<open>subviews\<close>, is as it was. The local list \<^verbatim>\<open>new_subviews\<close> holds one view for each
  value of \<open>pre\<close>. The view at position \<open>i\<close> is the child \<open>c\<close> with \<^verbatim>\<open>parent\<close> set to
  the receiver, \<^verbatim>\<open>index\<close> set to \<open>i\<close> and its environment made to inherit from the
  receiver's, as lines 96-98 leave it when the loop has run on the \<open>i\<close> values before,
  and then itself rebuilt. A child without an environment of its own has the shared
  \<^verbatim>\<open>View.env\<close> inherit instead.
\<close>
theorem rebuild_failure_mutates_children:
  assumes "fst (content v) = pre @ x # post"
    and "as_view x = None"
    and "\<forall>p\<in>set pre. \<exists>c. as_view p = Some c \<and> faults c = []"
    and "distinct (oid (vs v) # produced_oids v)"
  shows "\<exists>cenv' new.
           rebuild cenv v = (Some (ValueError (class_name x)), cenv', v, new) \<and>
           length new = length pre \<and>
           (\<forall>i<length pre. \<exists>c e0 e1 e2 a.
               as_view (pre ! i) = Some c \<and>
               rebuild_loop (vs v) cenv 0 [] (take i pre) = (None, e0, take i new) \<and>
               attach (vs v) e0 (int i) c = (e1, a) \<and>
               rebuild e1 a = (None, e2, new ! i, subviews (new ! i)) \<and>
               e1 = (if env (vs c) = None then inherit e0 (self_env (vs v) e0) else e0) \<and>
               vs (new ! i) =
                 (vs c)\<lparr>parent := Some (oid (vs v)), index := int i,
                         env := map_option (\<lambda>e. inherit e (self_env (vs v) e0)) (env (vs c))\<rparr>)"
proof -
  let ?g = "\<lambda>x. case as_view x of None \<Rightarrow> [ValueError (class_name x)] | Some c \<Rightarrow> faults c"
  obtain s cs svs where v: "v = View s cs svs" by (cases v)
  obtain stop where p: "content (View s cs svs) = (pre @ x # post, stop)"
    using assms(1) v by (cases "content (View s cs svs)") auto
  obtain e cenv' new where l: "rebuild_loop s cenv 0 [] pre = (e, cenv', new)"
    by (cases "rebuild_loop s cenv 0 [] pre")
  from assms(3) have "concat (map ?g pre) = []"
    by (induction pre) auto
  with rebuild_raised(2)[of s cenv 0 "[]" pre] l have e: "e = None"
    by (simp add: first_fault_simps)
  from l e assms(2) have "rebuild_loop s cenv 0 [] (pre @ x # post) =
      (Some (ValueError (class_name x)), cenv', new)"
    by (simp add: rebuild_loop_append)
  with p v have r: "rebuild cenv v = (Some (ValueError (class_name x)), cenv', v, new)"
    by simp
  from rebuild_loop_ok[OF l[unfolded e]] have len: "length new = length pre"
    by auto
  have "\<exists>c e0 e1 e2 a.
               as_view (pre ! i) = Some c \<and>
               rebuild_loop (vs v) cenv 0 [] (take i pre) = (None, e0, take i new) \<and>
               attach (vs v) e0 (int i) c = (e1, a) \<and>
               rebuild e1 a = (None, e2, new ! i, subviews (new ! i)) \<and>
               e1 = (if env (vs c) = None then inherit e0 (self_env (vs v) e0) else e0) \<and>
               vs (new ! i) =
                 (vs c)\<lparr>parent := Some (oid (vs v)), index := int i,
                         env := map_option (\<lambda>e. inherit e (self_env (vs v) e0)) (env (vs c))\<rparr>"
    if "i < length pre" for i
  proof -
    from rebuild_loop_prefix[OF l[unfolded e] that] obtain c e0 e1 e2 a where
      c: "as_view (pre ! i) = Some c"
      and pr: "rebuild_loop s cenv 0 [] (take i pre) = (None, e0, take i new)"
      and a: "attach s e0 (0 + int i) c = (e1, a)"
      and rb: "rebuild e1 a = (None, e2, new ! i, subviews (new ! i))"
      by auto
    from rebuild_vs[of e1 a] rb have va: "vs (new ! i) = vs a" by simp
    from a attach_eq[of s e0 "0 + int i" c] have
      "e1 = (if env (vs c) = None then inherit e0 (self_env s e0) else e0)"
      "vs a = (vs c)\<lparr>parent := Some (oid s), index := int i,
                   env := map_option (\<lambda>e. inherit e (self_env s e0)) (env (vs c))\<rparr>"
      by auto
    with c pr a rb va v show ?thesis by auto
  qed
  with r len show ?thesis by auto
qed

theorem rebuild_failure_mutates_children_witness:
  "fst (content mut_root) = [PView mut_kid] @ PAtom ''str'' # [] \<and>
   as_view (PAtom ''str'') = None \<and> faults mut_kid = [] \<and>
   oid (vs mut_root) # produced_oids mut_root = [0, 1, 2] \<and>
   subviews mut_root = [mut_old] \<and>
   parent (vs mut_kid) = None \<and> subviews mut_kid = [] \<and>
   read_env env0 mut_kid ''scale'' = None \<and> read_env env0 mut_kid ''font'' = Some 7 \<and>
   (\<exists>cenv' new.
      rebuild env0 mut_root = (Some (ValueError ''str''), cenv', mut_root, new) \<and>
      map (\<lambda>c. (parent (vs c), index (vs c), read_env cenv' c ''scale'', read_env cenv' c ''font'',
                map (\<lambda>g. parent (vs g)) (subviews c))) new
        = [(Some 0, 0, Some 2, Some 7, [Some 1])])"
proof -
  have h: "fst (content mut_root) = [PView mut_kid] @ PAtom ''str'' # []"
    "as_view (PAtom ''str'') = None"
    "\<forall>p\<in>set [PView mut_kid]. \<exists>c. as_view p = Some c \<and> faults c = []"
    "distinct (oid (vs mut_root) # produced_oids mut_root)"
    by (simp_all add: mut_root_def mut_kid_def mut_grand_def content_def init_state_def)
  have f: "faults mut_kid = []" "oid (vs mut_root) # produced_oids mut_root = [0, 1, 2]"
    "subviews mut_root = [mut_old]" "parent (vs mut_kid) = None" "subviews mut_kid = []"
    "read_env env0 mut_kid ''scale'' = None" "read_env env0 mut_kid ''font'' = Some 7"
    by (simp_all add: mut_root_def mut_kid_def mut_grand_def content_def init_state_def
        read_env_def env_read_def env0_def)
  have r: "\<exists>cenv' new.
      rebuild env0 mut_root = (Some (ValueError ''str''), cenv', mut_root, new) \<and>
      map (\<lambda>c. (parent (vs c), index (vs c), read_env cenv' c ''scale'', read_env cenv' c ''font'',
                map (\<lambda>g. parent (vs g)) (subviews c))) new
        = [(Some 0, 0, Some 2, Some 7, [Some 1])]"
    by (simp add: mut_root_def mut_kid_def mut_grand_def content_def attach_def init_state_def
        read_env_def env_read_def inherit_def)
  from rebuild_failure_mutates_children[OF h, of env0] h(1,2) f r
  show ?thesis by simp
qed

section \<open>Layout and invalidation\<close>

lemma get_at_put_at: "get_at root p = Some x \<Longrightarrow> get_at (put_at root p n) p = Some n"
  by (induction root p arbitrary: x rule: get_at.induct) (auto split: if_splits)

lemma put_at_Cons_subviews:
  "get_at root (i # p) = Some x \<Longrightarrow> subviews (put_at root (i # p) n) \<noteq> []"
  by (auto split: if_splits)

lemma faults_set_dirty: "faults (set_dirty b v) = faults v"
  by (rule faults_contents) (simp add: set_dirty_def)

lemma layout_ok:
  assumes "faults v = [] \<or> subviews v \<noteq> []"
  shows "\<exists>cenv' v'. layout cenv rect v = (None, cenv', v') \<and> \<not> dirty (vs v')"
proof (cases "subviews v = []")
  case True
  obtain e cenv' v' n where r: "rebuild cenv v = (e, cenv', v', n)"
    by (cases "rebuild cenv v") auto
  from True assms rebuild_raised(1)[of cenv v] r have "e = None"
    by (simp add: first_fault_simps)
  with True r show ?thesis
    by (simp add: layout_def set_dirty_def)
next
  case False
  then show ?thesis
    by (simp add: layout_def set_dirty_def)
qed

lemma vs_get_at_put_at:
  "get_at t p = Some x \<Longrightarrow> vs n = vs x \<Longrightarrow>
     map_option vs (get_at (put_at t p n) (take k p)) = map_option vs (get_at t (take k p))"
proof (induction p arbitrary: t k)
  case Nil
  then show ?case by simp
next
  case (Cons i q)
  from Cons.prems(1) have i: "i < length (subviews t)" and g: "get_at (subviews t ! i) q = Some x"
    by (auto split: if_splits)
  show ?case
  proof (cases k)
    case 0
    with i show ?thesis by simp
  next
    case (Suc k')
    with i Cons.IH[OF g Cons.prems(2), of k'] show ?thesis by simp
  qed
qed

lemma linked_butlast: "linked t p \<Longrightarrow> linked t (butlast p)"
  by (auto simp: linked_def list_all_iff butlast_conv_take take_take min_def split: option.splits)

lemma linked_last:
  assumes "linked t p" and "p \<noteq> []"
  shows "\<exists>up view. get_at t (butlast p) = Some up \<and> get_at t p = Some view \<and>
                   parent (vs view) = Some (oid (vs up))"
proof -
  from assms(2) have k: "length p - 1 < length p" by (cases p) auto
  from assms(1) have "\<forall>k<length p. case (get_at t (take k p), get_at t (take (Suc k) p)) of
                      (Some up, Some view) \<Rightarrow> parent (vs view) = Some (oid (vs up))
                    | _ \<Rightarrow> False"
    by (simp add: linked_def list_all_iff)
  with k have "case (get_at t (take (length p - 1) p), get_at t (take (Suc (length p - 1)) p)) of
                      (Some up, Some view) \<Rightarrow> parent (vs view) = Some (oid (vs up))
                    | _ \<Rightarrow> False"
    by blast
  moreover have "take (Suc (length p - 1)) p = p" using assms(2) by simp
  moreover have "take (length p - 1) p = butlast p" by (simp add: butlast_conv_take)
  ultimately show ?thesis by (auto split: option.splits)
qed

lemma root_walk_linked: "linked t p \<Longrightarrow> root_walk t p = Some []"
proof (induction "length p" arbitrary: p)
  case 0
  then show ?case by (simp add: linked_def)
next
  case (Suc n)
  then have ne: "p \<noteq> []" by auto
  from linked_last[OF Suc.prems ne] obtain up view where
    v: "get_at t (butlast p) = Some up" "get_at t p = Some view" "parent (vs view) = Some (oid (vs up))"
    by blast
  from Suc.hyps(2) ne have "n = length (butlast p)" by simp
  from Suc.hyps(1)[OF this linked_butlast[OF Suc.prems]] have "root_walk t (butlast p) = Some []" .
  with v ne show ?case
    by (subst root_walk.simps) simp
qed

lemma linked_put_at:
  assumes "linked t p" and "get_at t p = Some x" and "vs n = vs x"
  shows "linked (put_at t p n) p"
proof -
  have c: "(case (get_at u q, get_at u q') of
              (Some up, Some view) \<Rightarrow> parent (vs view) = Some (oid (vs up)) | _ \<Rightarrow> False)
         = (case (map_option vs (get_at u q), map_option vs (get_at u q')) of
              (Some su, Some sv) \<Rightarrow> parent sv = Some (oid su) | _ \<Rightarrow> False)"
    for u q q'
    by (cases "get_at u q"; cases "get_at u q'") simp_all
  from vs_get_at_put_at[OF assms(2,3), of 0] have "vs (put_at t p n) = vs t" by simp
  with assms(1) show ?thesis
    unfolding linked_def c
    by (simp add: vs_get_at_put_at[OF assms(2,3)])
qed

text \<open>
  Claim C7: for every view of a tree that holds each object once, with the parent links
  the data model requires and a declared content that reconciles without an exception,
  \<^verbatim>\<open>state_changed\<close> rebuilds that view in place and sets \<^verbatim>\<open>dirty\<close> on the root of the
  tree; after that, \<^verbatim>\<open>layout\<close> on the root, with any rect, returns and leaves
  \<^verbatim>\<open>dirty\<close> false.
\<close>

theorem state_changed_marks_root_dirty:
  assumes "get_at t p = Some self" and "linked t p" and "faults self = []"
    and "distinct (path_oids t p @ produced_oids self)"
  shows "\<exists>cenv' self' t'.
           rebuild cenv self = (None, cenv', self', subviews self') \<and>
           state_changed cenv t p name val = Some (None, cenv', t') \<and>
           t' = set_dirty True (put_at t p self') \<and>
           dirty (vs t') \<and>
           (\<forall>rect. \<exists>cenv'' t''. layout cenv' rect t' = (None, cenv'', t'') \<and> \<not> dirty (vs t''))"
proof -
  obtain e cenv' self' n where r: "rebuild cenv self = (e, cenv', self', n)"
    by (cases "rebuild cenv self") auto
  from assms(3) rebuild_raised(1)[of cenv self] r have e: "e = None"
    by (simp add: first_fault_simps)
  from rebuild_result[OF r] e have s: "self' = View (vs self) (contents self) n" by simp
  then have "vs self' = vs self" by simp
  from root_walk_linked[OF linked_put_at[OF assms(2,1) this]]
  have w: "root_walk (put_at t p self') p = Some []" .
  let ?t' = "set_dirty True (put_at t p self')"
  have sc: "state_changed cenv t p name val = Some (None, cenv', ?t')"
    using assms(1) r e w by (simp add: state_changed_def)
  have ok: "faults ?t' = [] \<or> subviews ?t' \<noteq> []"
  proof (cases p)
    case Nil
    have "faults self' = faults self"
      by (rule faults_contents) (simp add: s)
    with Nil assms(3) show ?thesis
      by (simp add: faults_set_dirty)
  next
    case (Cons i q)
    with put_at_Cons_subviews[of t i q self self'] assms(1) show ?thesis
      by (simp add: set_dirty_def)
  qed
  have "\<exists>cenv'' t''. layout cenv' rect ?t' = (None, cenv'', t'') \<and> \<not> dirty (vs t'')"
    for rect
    using layout_ok[OF ok] by blast
  with r e s sc show ?thesis
    by (simp add: set_dirty_def)
qed

theorem state_changed_marks_root_dirty_witness:
  "get_at sc_root [0] = Some sc_mid \<and> linked sc_root [0] \<and> faults sc_mid = [] \<and>
   path_oids sc_root [0] = [0, 1] \<and> produced_oids sc_mid = [2] \<and>
   \<not> dirty (vs sc_root) \<and> subviews sc_mid = [] \<and>
   (\<exists>cenv' t'.
      state_changed env0 sc_root [0] ''count'' (Some (AInt 3)) = Some (None, cenv', t') \<and>
      dirty (vs t') \<and>
      map (\<lambda>c. length (subviews c)) (subviews t') = [1] \<and>
      (\<exists>cenv'' t''. layout cenv' (Rect (Point 0 0) (Size 200 100)) t' = (None, cenv'', t'') \<and>
         \<not> dirty (vs t'')))"
proof -
  have o: "path_oids sc_root [0] = [0, 1]" "produced_oids sc_mid = [2]"
    by (simp_all add: sc_root_def sc_mid_def sc_leaf_def content_def init_state_def)
  have h: "get_at sc_root [0] = Some sc_mid" "linked sc_root [0]" "faults sc_mid = []"
    "distinct (path_oids sc_root [0] @ produced_oids sc_mid)"
    unfolding o
    by (simp_all add: sc_root_def sc_mid_def sc_leaf_def content_def linked_def init_state_def)
  have d: "\<not> dirty (vs sc_root)" "subviews sc_mid = []"
    by (simp_all add: sc_root_def sc_mid_def init_state_def)
  have r: "\<exists>k. rebuild env0 sc_mid = (None, env0, View (vs sc_mid) (contents sc_mid) [k], [k])"
    by (simp add: sc_mid_def sc_leaf_def content_def attach_def init_state_def inherit_env0)
  have p: "subviews (put_at sc_root [0] x) = [x]" for x
    by (simp add: sc_root_def)
  from state_changed_marks_root_dirty[OF h, of env0 "''count''" "Some (AInt 3)"] r h(1-3) o d p
  show ?thesis
    by (auto simp: set_dirty_def)
qed
text \<open>
  Claim C5, as stated: with a leaf whose \<^verbatim>\<open>minimum_size()\<close> is (50, 20) under a root
  with padding 10, layout in a viewport of (200, 100) gives the leaf a frame of at least
  (50, 20) and the root one of at least (70, 40). This fails on the code: \<^verbatim>\<open>layout\<close>,
  \<^verbatim>\<open>resize\<close> and \<^verbatim>\<open>reposition\<close> never call \<^verbatim>\<open>minimum_size\<close>. A leaf that overrides
  only that method has the content size of \<^verbatim>\<open>View\<close>, zero: its frame is (0, 0) and the
  root's is (20, 20).
\<close>

theorem layout_ignores_minimum_size_counterexample:
  "padding (vs scen_root_min) = Insets 10 10 10 10 \<and>
   contents scen_root_min = [PView scen_leaf_min] \<and>
   minimum_size scen_leaf_min = Size 50 20 \<and>
   fst (layout env0 (Rect (Point 0 0) (Size 200 100)) scen_root_min) = None \<and>
   map (\<lambda>c. rsize (frame (vs c)))
       (subviews (snd (snd (layout env0 (Rect (Point 0 0) (Size 200 100)) scen_root_min))))
     = [Size 0 0] \<and>
   rsize (frame (vs (snd (snd (layout env0 (Rect (Point 0 0) (Size 200 100)) scen_root_min)))))
     = Size 20 20"
  by (simp add: scen_root_min_def scen_leaf_min_def init_state_def layout_def content_def attach_def
      inherit_env0 set_dirty_def content_size_def ins_width_def ins_height_def
      rect_width_def rect_height_def rect_left_def rect_top_def rect_sub_def Let_def)

text \<open>
  Claim C5, amended: a root with padding (10, 10, 10, 10), no border and the content
  size of \<^verbatim>\<open>View\<close>, not yet reconciled, that declares one leaf whose
  \<^verbatim>\<open>content_size\<close> answers (50, 20) for the space it is offered, laid out in a
  viewport of size (200, 100): \<^verbatim>\<open>layout\<close> returns, the leaf's frame has size (50, 20),
  the root's has size (70, 40), and the leaf is centred in the root's inner rect, its
  frame less padding and border.
\<close>

theorem layout_scenario:
  assumes "padding (vs root) = Insets 10 10 10 10" and "border (vs root) = Insets 0 0 0 0"
    and "content_size_m (vs root) = None"
    and "contents root = [PView leaf]" and "subviews root = []"
    and "contents leaf = []"
    and "padding (vs leaf) = Insets 0 0 0 0" and "border (vs leaf) = Insets 0 0 0 0"
    and "content_size_m (vs leaf) = Some f" and "f (Size 180 80) = Size 50 20"
    and "rsize viewport = Size 200 100"
  shows "\<exists>cenv' root' leaf'.
           layout cenv viewport root = (None, cenv', root') \<and>
           subviews root' = [leaf'] \<and>
           rsize (frame (vs leaf')) = Size 50 20 \<and>
           rsize (frame (vs root')) = Size 70 40 \<and>
           (let inner = rect_sub (rect_sub (frame (vs root')) (padding (vs root'))) (border (vs root'))
            in origin (frame (vs leaf')) =
                 Point (rect_left inner + (rect_width inner - rect_width (frame (vs leaf'))) div 2)
                       (rect_top inner + (rect_height inner - rect_height (frame (vs leaf'))) div 2))"
proof -
  obtain s cs svs where root: "root = View s cs svs" by (cases root)
  obtain ls lcs lsvs where leaf: "leaf = View ls lcs lsvs" by (cases leaf)
  obtain vo vz where vp: "viewport = Rect vo vz" by (cases viewport)
  obtain cenv1 a where at: "attach s cenv 0 (View ls [] lsvs) = (cenv1, a)"
    by (cases "attach s cenv 0 (View ls [] lsvs)")
  from at have a: "contents a = []" "padding (vs a) = padding ls" "border (vs a) = border ls"
    "content_size_m (vs a) = content_size_m ls"
    by (auto simp: attach_def Let_def split: option.splits)
  obtain as acs asvs where av: "a = View as acs asvs" by (cases a)
  show ?thesis
    using assms a at
    by (simp add: root leaf vp av layout_def content_def set_dirty_def content_size_def
        ins_width_def ins_height_def rect_width_def rect_height_def rect_left_def rect_top_def
        rect_sub_def Let_def)
qed

theorem layout_scenario_witness:
  "padding (vs scen_root) = Insets 10 10 10 10 \<and> contents scen_root = [PView scen_leaf] \<and>
   subviews scen_root = [] \<and> content_size scen_leaf (Size 180 80) = Size 50 20 \<and>
   fst (layout env0 (Rect (Point 0 0) (Size 200 100)) scen_root) = None \<and>
   frame (vs (snd (snd (layout env0 (Rect (Point 0 0) (Size 200 100)) scen_root))))
     = Rect (Point 65 30) (Size 70 40) \<and>
   map (\<lambda>c. frame (vs c))
       (subviews (snd (snd (layout env0 (Rect (Point 0 0) (Size 200 100)) scen_root))))
     = [Rect (Point 75 40) (Size 50 20)]"
proof -
  have h: "padding (vs scen_root) = Insets 10 10 10 10" "border (vs scen_root) = Insets 0 0 0 0"
    "content_size_m (vs scen_root) = None"
    "contents scen_root = [PView scen_leaf]" "subviews scen_root = []"
    "contents scen_leaf = []"
    "padding (vs scen_leaf) = Insets 0 0 0 0" "border (vs scen_leaf) = Insets 0 0 0 0"
    "content_size_m (vs scen_leaf) = Some (\<lambda>a. Size 50 20)" "(\<lambda>a. Size 50 20) (Size 180 80) = Size 50 20"
    "rsize (Rect (Point 0 0) (Size 200 100)) = Size 200 100"
    by (simp_all add: scen_root_def scen_leaf_def init_state_def)
  have c: "content_size scen_leaf (Size 180 80) = Size 50 20"
    by (simp add: scen_leaf_def content_size_def)
  have v: "frame (vs (snd (snd (layout env0 (Rect (Point 0 0) (Size 200 100)) scen_root))))
     = Rect (Point 65 30) (Size 70 40)"
   "map (\<lambda>c. frame (vs c))
       (subviews (snd (snd (layout env0 (Rect (Point 0 0) (Size 200 100)) scen_root))))
     = [Rect (Point 75 40) (Size 50 20)]"
    by (simp_all add: scen_root_def scen_leaf_def init_state_def layout_def content_def attach_def
      inherit_env0 set_dirty_def content_size_def ins_width_def ins_height_def
      rect_width_def rect_height_def rect_left_def rect_top_def rect_sub_def Let_def)
  from layout_scenario[OF h, of env0] h(1,4,5) c v show ?thesis
    by auto
qed

section \<open>Environment inheritance\<close>

text \<open>
  Claim C9 says that a sibling subtree observes none of an override. On the code it does.
  The two trees below differ only in the override of \<^verbatim>\<open>scale\<close> that \<open>A\<close> holds. After
  reconciliation the sibling \<open>B\<close>, which has no environment of its own, reads no
  \<^verbatim>\<open>scale\<close> in the first tree and 2 in the second, and so does the root: the child of
  \<open>A\<close> inherits into the class attribute \<^verbatim>\<open>View.env\<close>, which \<open>B\<close> and the root read.
\<close>

theorem env_override_leaks:
  "(case rebuild env0 (leak_root (\<lambda>_. None)) of
      (e, cenv, r, _) \<Rightarrow>
        e = None \<and> map (\<lambda>c. read_env cenv c ''scale'') (subviews r) = [None, None]) \<and>
   (case rebuild env0 (leak_root ((\<lambda>_. None)(''scale'' := Some 2))) of
      (e, cenv, r, _) \<Rightarrow>
        e = None \<and> map (\<lambda>c. read_env cenv c ''scale'') (subviews r) = [Some 2, Some 2] \<and>
        map (\<lambda>c. env (vs c) = None) (subviews r) = [False, True] \<and>
        read_env cenv r ''scale'' = Some 2)"
  by (simp add: leak_root_def leak_A_def leak_B_def leak_G_def init_state_def content_def attach_def
      inherit_def env0_def env_read_def read_env_def)

end
